theory Spec2Isabelle
  imports Main "HOL-Library.Sublist" "HOL-Library.Multiset" "HOL-Library.AList"
begin

section \<open>Python string operations used by DataScrapping.py\<close>

text \<open>
  Python strings are modelled as \<^typ>\<open>string\<close>. Every character the program treats
  specially is ASCII, and no byte of a multi-byte UTF-8 sequence is an ASCII byte, so
  replacing and stripping on bytes agrees with Python's behaviour on code points.
\<close>

text \<open>
  \<^verbatim>\<open>s.replace(old, new)\<close>: all non-overlapping occurrences of \<open>old\<close>, found scanning
  left to right, are replaced by \<open>new\<close>. For the empty \<open>old\<close> Python inserts \<open>new\<close>
  before every character and at the end.
\<close>

function str_replace :: "string \<Rightarrow> string \<Rightarrow> string \<Rightarrow> string" where
  "str_replace [] old new = (if old = [] then new else [])"
| "str_replace (c # cs) old new =
     (if old = [] then new @ c # str_replace cs old new
      else if prefix old (c # cs) then new @ str_replace (drop (length old) (c # cs)) old new
      else c # str_replace cs old new)"
  by pat_completeness auto
termination
  by (relation "measure (\<lambda>(s, old, new). length s)") auto

text \<open>\<^verbatim>\<open>s.rstrip(chars)\<close>: the longest suffix made of characters of \<open>chars\<close> is removed.\<close>

definition rstrip :: "string \<Rightarrow> string \<Rightarrow> string" where
  "rstrip s chars = rev (dropWhile (\<lambda>x. x \<in> set chars) (rev s))"

section \<open>create_safe_filename\<close>

definition invalid_chars :: "string list" where
  "invalid_chars =
     [''<'', ''>'', '':'', [CHR 0x22], ''/'', [CHR 0x5C], ''|'', ''?'', ''*'', [CHR 0x27]]"

definition create_safe_filename :: "string \<Rightarrow> string" where
  "create_safe_filename movie_name =
     (let safe_name = fold (\<lambda>char safe_name. str_replace safe_name char []) invalid_chars movie_name;
          safe_name = str_replace (str_replace safe_name '' '' ''_'') ''__'' ''_'';
          safe_name = rstrip safe_name ''.''
      in safe_name)"

text \<open>
  \<^verbatim>\<open>os.path.join(a, b)\<close> for two components (posixpath): an absolute \<open>b\<close> discards
  \<open>a\<close>; otherwise a separator is inserted unless \<open>a\<close> is empty or already ends in one.
\<close>

definition os_path_join :: "string \<Rightarrow> string \<Rightarrow> string" where
  "os_path_join a b =
     (if prefix ''/'' b then b
      else if a = [] \<or> last a = CHR ''/'' then a @ b
      else a @ ''/'' @ b)"

text \<open>The per-entry output location computed in \<^verbatim>\<open>process_movie_batch\<close>.\<close>

definition movie_filename :: "string \<Rightarrow> string \<Rightarrow> string" where
  "movie_filename output_folder movie_name =
     os_path_join output_folder (create_safe_filename movie_name @ ''_daily.csv'')"

text \<open>Two adjacent separator characters somewhere in a string.\<close>

fun has_double_sep :: "string \<Rightarrow> bool" where
  "has_double_sep (a # b # cs) = ((a = CHR ''_'' \<and> b = CHR ''_'') \<or> has_double_sep (b # cs))"
| "has_double_sep _ = False"

definition space_to_sep :: "char \<Rightarrow> char" where
  "space_to_sep x = (if x = CHR '' '' then CHR ''_'' else x)"

definition plain_identifier :: "string \<Rightarrow> bool" where
  "plain_identifier n =
     (list_all (\<lambda>x. x \<notin> set (concat invalid_chars) \<and> x \<noteq> CHR '' '') n
      \<and> \<not> has_double_sep n \<and> (n = [] \<or> last n \<noteq> CHR ''.''))"

section \<open>The Fetcher: scrape_daily_box_office\<close>

text \<open>Decimal printing of an integer, as the f-string \<^verbatim>\<open>f"{year}"\<close> prints it.\<close>

definition digit_char :: "nat \<Rightarrow> char" where
  "digit_char d = char_of (48 + d)"

function string_of_nat :: "nat \<Rightarrow> string" where
  "string_of_nat n =
     (if n < 10 then [digit_char n] else string_of_nat (n div 10) @ [digit_char (n mod 10)])"
  by pat_completeness auto
termination
  by (relation "measure id") auto

definition str_int :: "int \<Rightarrow> string" where
  "str_int i = (if i < 0 then CHR ''-'' # string_of_nat (nat (- i)) else string_of_nat (nat i))"

text \<open>
  What one \<^verbatim>\<open>requests.get\<close> followed by \<^verbatim>\<open>raise_for_status\<close> and the HTML parse
  gives for a URL. The document is kept as far as the program looks at it: whether the
  heading \<open>Daily Box Office Performance\<close> exists, whether a table follows it, and the
  table's \<open>tr\<close> rows, each the list of the stripped texts of its \<open>th\<close>/\<open>td\<close> cells.
  \<open>RequestException\<close> stands for every exception of that class (transport errors and
  non-2xx statuses), \<open>OtherException\<close> for any other \<open>Exception\<close> raised while fetching
  or parsing; both carry \<open>str(e)\<close>.
\<close>

type_synonym table = "string list list"

datatype soup = NoHeading | Heading "table option"

datatype response = RequestException string | OtherException string | Page soup

text \<open>
  A row dictionary keeps Python's insertion order: a key seen again keeps its place and
  takes the new value. A data frame is the list of its rows.
\<close>

type_synonym row_dict = "(string \<times> string) list"

type_synonym dataframe = "row_dict list"

definition dict_zip :: "string list \<Rightarrow> string list \<Rightarrow> row_dict" where
  "dict_zip keys vals = fold (\<lambda>(k, v) d. AList.update k v d) (zip keys vals) []"

definition make_row :: "string \<Rightarrow> string list \<Rightarrow> string list \<Rightarrow> row_dict" where
  "make_row movie_name table_headers row_data =
     AList.update ''Movie_Name'' movie_name (dict_zip table_headers row_data)"

text \<open>The rows kept by the loop over \<^verbatim>\<open>daily_table.find_all('tr')[1:]\<close>.\<close>

definition well_formed_rows :: "string list \<Rightarrow> table \<Rightarrow> table" where
  "well_formed_rows table_headers rows =
     filter (\<lambda>row_data. length row_data = length table_headers) rows"

definition all_data_of :: "string \<Rightarrow> string list \<Rightarrow> table \<Rightarrow> dataframe" where
  "all_data_of movie_name table_headers rows =
     map (make_row movie_name table_headers) (well_formed_rows table_headers rows)"

definition clean_gross :: "dataframe \<Rightarrow> dataframe" where
  "clean_gross df =
     (if list_ex (\<lambda>r. ''Gross'' \<in> set (map fst r)) df
      then map (AList.map_entry ''Gross'' (\<lambda>v. str_replace (str_replace v ''$'' []) '','' [])) df
      else df)"

text \<open>
  \<^verbatim>\<open>daily_table.find('tr')\<close> is \<open>None\<close> for a table without rows, and calling
  \<^verbatim>\<open>find_all\<close> on it raises this \<open>AttributeError\<close>.
\<close>

definition no_tr_message :: string where
  "no_tr_message =
     [CHR 0x27] @ ''NoneType'' @ [CHR 0x27] @ '' object has no attribute ''
       @ [CHR 0x27] @ ''find_all'' @ [CHR 0x27]"

text \<open>
  The loop over the candidate URLs. \<open>Inl\<close> is an exception that leaves the loop (it is
  not a \<open>RequestException\<close>), \<open>Inr (Some df)\<close> the early return of a data frame,
  \<open>Inr None\<close> the end of the loop.
\<close>

fun try_urls :: "(string \<Rightarrow> response) \<Rightarrow> string \<Rightarrow> string list \<Rightarrow> string + dataframe option" where
  "try_urls get movie_name [] = Inr None"
| "try_urls get movie_name (url # urls) =
     (case get url of
        RequestException e \<Rightarrow> try_urls get movie_name urls
      | OtherException e \<Rightarrow> Inl e
      | Page NoHeading \<Rightarrow> try_urls get movie_name urls
      | Page (Heading None) \<Rightarrow> try_urls get movie_name urls
      | Page (Heading (Some [])) \<Rightarrow> Inl no_tr_message
      | Page (Heading (Some (table_headers # rows))) \<Rightarrow>
          (let all_data = all_data_of movie_name table_headers rows in
           if all_data \<noteq> [] then Inr (Some (clean_gross all_data))
           else try_urls get movie_name urls))"

definition url_name_of :: "string \<Rightarrow> string" where
  "url_name_of movie_name =
     str_replace (str_replace (str_replace movie_name '':'' []) ''&'' ''and'') '' '' ''-''"

definition url_primary :: "string \<Rightarrow> int \<Rightarrow> string" where
  "url_primary movie_name year =
     ''https://www.the-numbers.com/movie/'' @ url_name_of movie_name
       @ ''-('' @ str_int year @ '')#tab=box-office''"

definition url_secondary :: "string \<Rightarrow> string" where
  "url_secondary movie_name =
     ''https://www.the-numbers.com/movie/'' @ url_name_of movie_name @ ''#tab=box-office''"

text \<open>
  The value returned for each way of leaving the loop: \<^verbatim>\<open>return df, None\<close>,
  \<^verbatim>\<open>return None, "No data found"\<close>, and the outer handler's
  \<^verbatim>\<open>return None, str(e)\<close>.
\<close>

fun returned :: "string + dataframe option \<Rightarrow> dataframe option \<times> string option" where
  "returned (Inr (Some df)) = (Some df, None)"
| "returned (Inr None) = (None, Some ''No data found'')"
| "returned (Inl e) = (None, Some e)"

text \<open>
  scrape_daily_box_office. The title and the year come from catalog rows that passed the
  filter \<^verbatim>\<open>release_year >= 2010\<close>, so the title is a string and \<^verbatim>\<open>int(release_year)\<close>
  is the year itself. The handler \<^verbatim>\<open>except Exception\<close> does not catch interrupts
  (\<open>KeyboardInterrupt\<close>, \<open>SystemExit\<close>); they are not part of the model.
\<close>

definition scrape_daily_box_office ::
  "(string \<Rightarrow> response) \<Rightarrow> string \<Rightarrow> int \<Rightarrow> dataframe option \<times> string option" where
  "scrape_daily_box_office get movie_name release_year =
     (let year = release_year;
          urls = [url_primary movie_name year, url_secondary movie_name]
      in returned (try_urls get movie_name urls))"


section \<open>The catalog, the workers and the batch scheduler\<close>

text \<open>
  A catalog row: its index label and the three columns the scheduler reads. The labels
  are those of the data frame (\<^verbatim>\<open>iterrows\<close> yields them, \<^verbatim>\<open>.loc\<close> addresses rows by
  them); positions are what \<^verbatim>\<open>.iloc\<close> slices. \<open>None\<close> in the last column is NaN.
\<close>

record entry =
  idx :: nat
  movie_name :: string
  release_year :: int
  daily_box_office_path :: "string option"

record movie_data =
  md_movie_name :: string
  md_release_year :: int
  md_idx :: nat
  md_output_folder :: string
  md_project_root :: string

datatype result =
    Success (r_movie_name: string) (r_idx: nat) (r_data: dataframe) (r_path: string)
  | Failure (r_movie_name: string) (r_idx: nat) (r_error: "string option")

record error_entry =
  log_movie :: string
  log_error :: "string option"
  log_row :: nat

text \<open>
  The world outside the program. \<open>makedirs\<close> says whether
  \<^verbatim>\<open>os.makedirs(output_folder, exist_ok=True)\<close> raises (\<open>Some\<close> of the message) or
  succeeds (\<open>None\<close>). \<open>web i\<close> is what the worker for the row labelled \<open>i\<close>
  gets for each URL; \<open>write_movie_csv\<close>, \<open>write_metadata\<close>, \<open>write_error_log\<close> and
  \<open>write_combined\<close> say whether a \<^verbatim>\<open>to_csv\<close> call raises (\<open>Some\<close> of the message) or
  succeeds (\<open>None\<close>), the two per-batch writes by batch number; \<open>relpath\<close> is
  \<^verbatim>\<open>os.path.relpath\<close>, which depends on the working directory; \<open>as_completed k\<close> is
  the order in which the futures of batch \<open>k\<close> complete. \<open>set_marker i\<close> says whether
  the assignment \<^verbatim>\<open>metadata_df.loc[i, 'daily_box_office_path'] = path\<close> raises: pandas
  refuses to store a string in a marker column of numeric type, which is the type of a
  column read from a file in which it is entirely empty (a \<open>TypeError\<close> in pandas 3;
  earlier versions convert the column instead).
\<close>

record env =
  makedirs :: "string option"
  web :: "nat \<Rightarrow> string \<Rightarrow> response"
  write_movie_csv :: "string \<Rightarrow> string option"
  relpath :: "string \<Rightarrow> string \<Rightarrow> string"
  as_completed :: "nat \<Rightarrow> result list \<Rightarrow> result list"
  set_marker :: "nat \<Rightarrow> string option"
  write_metadata :: "nat \<Rightarrow> string option"
  write_error_log :: "nat \<Rightarrow> string option"
  write_combined :: "string option"

record params =
  output_folder :: string
  project_root :: string
  start_row :: int
  batch_size :: int
  max_workers :: int

text \<open>process_movie_batch: one worker. Every exception is turned into a failure result.\<close>

definition process_movie_batch :: "env \<Rightarrow> movie_data \<Rightarrow> result" where
  "process_movie_batch e md =
     (case scrape_daily_box_office (web e (md_idx md)) (md_movie_name md) (md_release_year md) of
        (Some movie_df, err) \<Rightarrow>
          (let file = movie_filename (md_output_folder md) (md_movie_name md) in
           case write_movie_csv e file of
             Some msg \<Rightarrow> Failure (md_movie_name md) (md_idx md) (Some msg)
           | None \<Rightarrow>
               Success (md_movie_name md) (md_idx md) movie_df (relpath e file (md_project_root md)))
      | (None, err) \<Rightarrow> Failure (md_movie_name md) (md_idx md) err)"

text \<open>\<^verbatim>\<open>df.iloc[a:b]\<close>: a Python slice by position, negative bounds counted from the end.\<close>

definition iloc :: "'a list \<Rightarrow> int \<Rightarrow> int \<Rightarrow> 'a list" where
  "iloc xs a b =
     (let n = int (length xs);
          lo = (if a < 0 then max (a + n) 0 else min a n);
          hi = (if b < 0 then max (b + n) 0 else min b n)
      in drop (nat lo) (take (nat hi) xs))"

text \<open>\<^verbatim>\<open>metadata_df.loc[i, 'daily_box_office_path'] = path\<close>: every row labelled \<open>i\<close>.\<close>

definition loc_set_path :: "entry list \<Rightarrow> nat \<Rightarrow> string \<Rightarrow> entry list" where
  "loc_set_path df i path =
     map (\<lambda>r. if idx r = i then r\<lparr>daily_box_office_path := Some path\<rparr> else r) df"

text \<open>
  The scheduler's variables. \<open>submitted\<close> is not a variable of the program: it records,
  for each batch that reaches the executor, the work items handed to it.
\<close>

record run_state =
  metadata_df :: "entry list"
  error_log :: "error_entry list"
  all_movies_data :: "dataframe list"
  submitted :: "movie_data list list"
  combined_df :: "dataframe option"

datatype error = ZeroDivisionError | ValueError string | TypeError string | OSError string

definition batch_rows :: "entry list \<Rightarrow> params \<Rightarrow> nat \<Rightarrow> entry list" where
  "batch_rows df p batch_num =
     (let batch_start = start_row p + int batch_num * batch_size p;
          batch_end = min (batch_start + batch_size p) (int (length df))
      in iloc df batch_start batch_end)"

definition movie_data_of :: "params \<Rightarrow> entry \<Rightarrow> movie_data" where
  "movie_data_of p r =
     \<lparr>md_movie_name = movie_name r, md_release_year = release_year r, md_idx = idx r,
      md_output_folder = output_folder p, md_project_root = project_root p\<rparr>"

definition batch_data_of :: "params \<Rightarrow> entry list \<Rightarrow> movie_data list" where
  "batch_data_of p batch_df =
     map (movie_data_of p) (filter (\<lambda>r. daily_box_office_path r = None) batch_df)"

text \<open>
  The body of the loop over the completed futures. The record set of a success is
  appended first; the marker assignment that follows is not guarded by a handler, so an
  exception it raises leaves \<^verbatim>\<open>parallel_scrape_movies\<close> (\<open>Inl\<close>, with the variables as
  they are then).
\<close>

fun record_result :: "env \<Rightarrow> result \<Rightarrow> run_state \<Rightarrow> (error \<times> run_state) + run_state" where
  "record_result e (Success n i d path) st =
     (let st' = st\<lparr>all_movies_data := all_movies_data st @ [d]\<rparr>
      in case set_marker e i of
           Some msg \<Rightarrow> Inl (TypeError msg, st')
         | None \<Rightarrow> Inr (st'\<lparr>metadata_df := loc_set_path (metadata_df st') i path\<rparr>))"
| "record_result e (Failure n i err) st =
     Inr (st\<lparr>error_log := error_log st @ [\<lparr>log_movie = n, log_error = err, log_row = i\<rparr>]\<rparr>)"

text \<open>The loop over the completed futures of one batch; it ends at the first exception.\<close>

fun record_results ::
  "env \<Rightarrow> result list \<Rightarrow> run_state \<Rightarrow> (error \<times> run_state) + run_state" where
  "record_results e [] st = Inr st"
| "record_results e (r # rs) st =
     (case record_result e r st of
        Inl x \<Rightarrow> Inl x
      | Inr st' \<Rightarrow> record_results e rs st')"

text \<open>
  One iteration of the loop over the batches. \<open>Inl\<close> is an exception leaving
  \<^verbatim>\<open>parallel_scrape_movies\<close>, with the variables as they were when it was raised:
  \<^verbatim>\<open>ThreadPoolExecutor\<close> refuses a worker count below one, an exception of the loop
  over the results passes through, and neither \<^verbatim>\<open>to_csv\<close> call after the batch is
  guarded by a handler.
\<close>

definition process_batch ::
  "env \<Rightarrow> params \<Rightarrow> nat \<Rightarrow> run_state \<Rightarrow> (error \<times> run_state) + run_state" where
  "process_batch e p batch_num st =
     (let batch_df = batch_rows (metadata_df st) p batch_num;
          batch_data = batch_data_of p batch_df
      in if batch_data = [] then Inr st
         else if max_workers p \<le> 0
           then Inl (ValueError ''max_workers must be greater than 0'', st)
         else
           (let results = as_completed e batch_num (map (process_movie_batch e) batch_data)
            in case record_results e results (st\<lparr>submitted := submitted st @ [batch_data]\<rparr>) of
                 Inl x \<Rightarrow> Inl x
               | Inr st' \<Rightarrow>
                   (case write_metadata e batch_num of
                      Some msg \<Rightarrow> Inl (OSError msg, st')
                    | None \<Rightarrow>
                        (case write_error_log e batch_num of
                           Some msg \<Rightarrow> Inl (OSError msg, st')
                         | None \<Rightarrow> Inr st'))))"

fun run_batches ::
  "env \<Rightarrow> params \<Rightarrow> nat list \<Rightarrow> run_state \<Rightarrow> (error \<times> run_state) + run_state" where
  "run_batches e p [] st = Inr st"
| "run_batches e p (batch_num # rest) st =
     (case process_batch e p batch_num st of
        Inl x \<Rightarrow> Inl x
      | Inr st' \<Rightarrow> run_batches e p rest st')"

definition total_batches :: "entry list \<Rightarrow> params \<Rightarrow> int" where
  "total_batches df p =
     (let total_rows = int (length df) - start_row p
      in (total_rows + batch_size p - 1) div batch_size p)"

definition initial_state :: "entry list \<Rightarrow> run_state" where
  "initial_state df =
     \<lparr>metadata_df = df, error_log = [], all_movies_data = [], submitted = [], combined_df = None\<rparr>"

text \<open>
  parallel_scrape_movies. Creating the output folder and computing the number of batches
  come first and are not guarded by a handler. The handler around the final write returns
  the same concatenation whether or not the write succeeds. \<open>combined_df\<close> of the final
  state is the value returned.
\<close>

definition parallel_scrape_movies ::
  "env \<Rightarrow> entry list \<Rightarrow> params \<Rightarrow> (error \<times> run_state) + run_state" where
  "parallel_scrape_movies e df p =
     (case makedirs e of
        Some msg \<Rightarrow> Inl (OSError msg, initial_state df)
      | None \<Rightarrow>
          if batch_size p = 0 then Inl (ZeroDivisionError, initial_state df)
          else
            case run_batches e p [0..<nat (total_batches df p)] (initial_state df) of
              Inl x \<Rightarrow> Inl x
            | Inr st \<Rightarrow>
                Inr (if all_movies_data st \<noteq> []
                     then (case write_combined e of
                             None \<Rightarrow> st\<lparr>combined_df := Some (concat (all_movies_data st))\<rparr>
                           | Some msg \<Rightarrow> st\<lparr>combined_df := Some (concat (all_movies_data st))\<rparr>)
                     else st))"

section \<open>Notions used to state the properties\<close>

text \<open>
  The Item Filter of the specification: the rows at or after the start offset whose
  completion marker is absent, in catalog order, as work items.
\<close>

definition item_filter :: "params \<Rightarrow> entry list \<Rightarrow> movie_data list" where
  "item_filter p df =
     map (movie_data_of p) (filter (\<lambda>r. daily_box_office_path r = None) (drop (nat (start_row p)) df))"

text \<open>Consecutive slices of length at most \<open>n\<close>.\<close>

definition chunks :: "nat \<Rightarrow> 'a list \<Rightarrow> 'a list list" where
  "chunks n xs = map (\<lambda>k. take n (drop (k * n) xs)) [0..<(length xs + n - 1) div n]"

text \<open>The work items of batch \<open>k\<close> as the catalog at the start of the run determines them.\<close>

definition planned_batch :: "params \<Rightarrow> entry list \<Rightarrow> nat \<Rightarrow> movie_data list" where
  "planned_batch p df k = batch_data_of p (batch_rows df p k)"

definition is_success :: "result \<Rightarrow> bool" where
  "is_success r = (case r of Success n i d path \<Rightarrow> True | Failure n i err \<Rightarrow> False)"

text \<open>The record sets of the successes among some results, in the order given.\<close>

definition success_data :: "result list \<Rightarrow> dataframe list" where
  "success_data rs = map r_data (filter is_success rs)"

text \<open>Every completion order is a rearrangement of the submitted work.\<close>

definition completion_is_permutation :: "env \<Rightarrow> bool" where
  "completion_is_permutation e = (\<forall>k rs. mset (as_completed e k rs) = mset rs)"

text \<open>No marker assignment raises.\<close>

definition marker_assignments_succeed :: "env \<Rightarrow> bool" where
  "marker_assignments_succeed e = (\<forall>i. set_marker e i = None)"

text \<open>The per-batch writes of the batches before \<open>m\<close> all succeed.\<close>

definition persistence_succeeds_before :: "env \<Rightarrow> nat \<Rightarrow> bool" where
  "persistence_succeeds_before e m =
     (\<forall>k<m. write_metadata e k = None \<and> write_error_log e k = None)"

text \<open>
  The setting of the theorems about the scheduler: the row labels are distinct, the start
  offset is not negative, the batch size and the worker count are at least one, the
  output folder can be created, and the completion orders are rearrangements.
\<close>

definition well_formed_run :: "env \<Rightarrow> entry list \<Rightarrow> params \<Rightarrow> bool" where
  "well_formed_run e df p =
     (distinct (map idx df) \<and> 0 \<le> start_row p \<and> 1 \<le> batch_size p \<and> 1 \<le> max_workers p
      \<and> makedirs e = None \<and> completion_is_permutation e)"

text \<open>The state in which a run ended, whether it returned or raised.\<close>

fun final_state :: "(error \<times> run_state) + run_state \<Rightarrow> run_state" where
  "final_state (Inl (x, st)) = st"
| "final_state (Inr st) = st"

section \<open>Auxiliary notions for the proofs about the scheduler\<close>

text \<open>
  What recording a result does to the variables when the marker assignment succeeds,
  what the loop over the completed futures does to one catalog row, the labels of the
  successes among some results, the error-log rows of the failures, the results of a
  planned batch in completion order, the labels marked by the batches before \<open>m\<close>, and
  the relation between a row at the start of the run and the same row later: nothing but
  the marker differs, and the marker is absent exactly if it was absent and the row has
  not succeeded since.
\<close>

fun recorded :: "result \<Rightarrow> run_state \<Rightarrow> run_state" where
  "recorded (Success n i d path) st =
     st\<lparr>all_movies_data := all_movies_data st @ [d],
        metadata_df := loc_set_path (metadata_df st) i path\<rparr>"
| "recorded (Failure n i err) st =
     st\<lparr>error_log := error_log st @ [\<lparr>log_movie = n, log_error = err, log_row = i\<rparr>]\<rparr>"

fun mark_row :: "result \<Rightarrow> entry \<Rightarrow> entry" where
  "mark_row (Success n i d path) r =
     (if idx r = i then r\<lparr>daily_box_office_path := Some path\<rparr> else r)"
| "mark_row (Failure n i err) r = r"

definition success_idxs :: "result list \<Rightarrow> nat list" where
  "success_idxs rs = map r_idx (filter is_success rs)"

definition failure_log :: "result list \<Rightarrow> error_entry list" where
  "failure_log rs =
     map (\<lambda>r. \<lparr>log_movie = r_movie_name r, log_error = r_error r, log_row = r_idx r\<rparr>)
       (filter (\<lambda>r. \<not> is_success r) rs)"

definition batch_results :: "env \<Rightarrow> params \<Rightarrow> entry list \<Rightarrow> nat \<Rightarrow> result list" where
  "batch_results e p df k = as_completed e k (map (process_movie_batch e) (planned_batch p df k))"

definition done_before :: "env \<Rightarrow> params \<Rightarrow> entry list \<Rightarrow> nat \<Rightarrow> nat set" where
  "done_before e p df m =
     set (success_idxs (map (process_movie_batch e) (concat (map (planned_batch p df) [0..<m]))))"

definition tracks :: "nat set \<Rightarrow> entry \<Rightarrow> entry \<Rightarrow> bool" where
  "tracks done r0 r =
     (r\<lparr>daily_box_office_path := None\<rparr> = r0\<lparr>daily_box_office_path := None\<rparr>
      \<and> (daily_box_office_path r = None
           \<longleftrightarrow> daily_box_office_path r0 = None \<and> idx r0 \<notin> done))"

definition after_batches :: "env \<Rightarrow> params \<Rightarrow> entry list \<Rightarrow> nat \<Rightarrow> run_state \<Rightarrow> bool" where
  "after_batches e p df m st =
     (list_all2 (tracks (done_before e p df m)) df (metadata_df st)
      \<and> submitted st = filter (\<lambda>b. b \<noteq> []) (map (planned_batch p df) [0..<m])
      \<and> all_movies_data st = concat (map (\<lambda>k. success_data (batch_results e p df k)) [0..<m])
      \<and> error_log st = concat (map (\<lambda>k. failure_log (batch_results e p df k)) [0..<m])
      \<and> combined_df st = None)"

definition batch_state :: "env \<Rightarrow> params \<Rightarrow> entry list \<Rightarrow> nat \<Rightarrow> run_state \<Rightarrow> run_state" where
  "batch_state e p df k st =
     (if planned_batch p df k = [] then st
      else fold recorded (batch_results e p df k)
             (st\<lparr>submitted := submitted st @ [planned_batch p df k]\<rparr>))"

definition batch_persisted :: "env \<Rightarrow> nat \<Rightarrow> run_state \<Rightarrow> (error \<times> run_state) + run_state" where
  "batch_persisted e k st =
     (case write_metadata e k of
        Some msg \<Rightarrow> Inl (OSError msg, st)
      | None \<Rightarrow> (case write_error_log e k of Some msg \<Rightarrow> Inl (OSError msg, st) | None \<Rightarrow> Inr st))"

section \<open>A small catalog and world for concrete runs\<close>

text \<open>
  Four rows labelled 10 to 13, the first already completed. The site has no page for
  row 11 and a one-day table for the others; every write succeeds; the futures of a
  batch complete in the reverse of their submission order.
\<close>

definition demo_catalog :: "entry list" where
  "demo_catalog =
     [\<lparr>idx = 10, movie_name = ''Movie A'', release_year = 2015,
        daily_box_office_path = Some ''data/raw/completed_movies/Movie_A_daily.csv''\<rparr>,
      \<lparr>idx = 11, movie_name = ''Movie B'', release_year = 2016, daily_box_office_path = None\<rparr>,
      \<lparr>idx = 12, movie_name = ''Movie C'', release_year = 2017, daily_box_office_path = None\<rparr>,
      \<lparr>idx = 13, movie_name = ''Movie D'', release_year = 2018, daily_box_office_path = None\<rparr>]"

definition demo_web :: "nat \<Rightarrow> string \<Rightarrow> response" where
  "demo_web i url =
     (if i = 11 then RequestException ''404 Client Error''
      else Page (Heading (Some [[''Date'', ''Gross''], [''2019/01/04'', ''$1,000'']])))"

definition demo_env :: env where
  "demo_env =
     \<lparr>makedirs = None, web = demo_web, write_movie_csv = (\<lambda>file. None), relpath = (\<lambda>file root. file),
      as_completed = (\<lambda>k. rev), set_marker = (\<lambda>i. None), write_metadata = (\<lambda>k. None),
      write_error_log = (\<lambda>k. None),
      write_combined = None\<rparr>"

definition demo_params :: params where
  "demo_params =
     \<lparr>output_folder = ''out'', project_root = ''.'', start_row = 0, batch_size = 2,
      max_workers = 5\<rparr>"

text \<open>The same world with a full disk when the catalog is written after batch 0.\<close>

definition demo_env_disk_full :: env where
  "demo_env_disk_full =
     demo_env\<lparr>write_metadata := (\<lambda>k. if k = 0 then Some ''No space left on device'' else None)\<rparr>"

text \<open>
  The same world with a marker column of numeric type, in which pandas refuses to store
  a path.
\<close>

definition demo_env_numeric_marker :: env where
  "demo_env_numeric_marker =
     demo_env\<lparr>set_marker := (\<lambda>i. Some ''Invalid value for dtype float64'')\<rparr>"

text \<open>The same world with the futures of every batch completing in submission order.\<close>

definition demo_env_in_order :: env where
  "demo_env_in_order = demo_env\<lparr>as_completed := (\<lambda>k rs. rs)\<rparr>"

text \<open>The exception with which a run ended, if it raised.\<close>

fun raised :: "(error \<times> run_state) + run_state \<Rightarrow> error option" where
  "raised (Inl (x, st)) = Some x"
| "raised (Inr st) = None"

section \<open>Properties of the sanitized file name\<close>

lemma str_replace_single:
  "str_replace s [c] new = concat (map (\<lambda>x. if x = c then new else [x]) s)"
  by (induction s) auto

lemma str_replace_delete: "str_replace s [c] [] = filter (\<lambda>x. x \<noteq> c) s"
  by (induction s) auto

lemma str_replace_space: "str_replace s '' '' ''_'' = map space_to_sep s"
  by (induction s) (auto simp: space_to_sep_def)

lemma remove_invalid_chars:
  "fold (\<lambda>char safe_name. str_replace safe_name char []) invalid_chars n
     = filter (\<lambda>x. x \<notin> set (concat invalid_chars)) n"
  unfolding invalid_chars_def
  by (simp add: str_replace_delete)

lemma collapse_pair [simp]:
  "str_replace (CHR ''_'' # CHR ''_'' # cs) ''__'' ''_'' = CHR ''_'' # str_replace cs ''__'' ''_''"
  by simp

lemma collapse_other [simp]:
  "a \<noteq> CHR ''_'' \<Longrightarrow> str_replace (a # cs) ''__'' ''_'' = a # str_replace cs ''__'' ''_''"
  by simp

lemma collapse_single [simp]:
  "b \<noteq> CHR ''_'' \<Longrightarrow>
     str_replace (CHR ''_'' # b # cs) ''__'' ''_'' = CHR ''_'' # b # str_replace cs ''__'' ''_''"
  by simp

lemma collapse_one [simp]: "str_replace ''_'' ''__'' ''_'' = ''_''"
  by simp

lemma collapse_set: "set (str_replace t ''__'' ''_'') \<subseteq> set t"
proof (induction "length t" arbitrary: t rule: less_induct)
  case less
  show ?case
  proof (cases t)
    case Nil then show ?thesis by simp
  next
    case (Cons a cs)
    show ?thesis
    proof (cases "a = CHR ''_''")
      case False
      with Cons less[of cs] show ?thesis by auto
    next
      case True
      show ?thesis
      proof (cases cs)
        case Nil with Cons True show ?thesis by simp
      next
        case (Cons b ds)
        with \<open>t = a # cs\<close> True less[of ds] less[of cs] show ?thesis
          by (cases "b = CHR ''_''") auto
      qed
    qed
  qed
qed

lemma collapse_id: "\<not> has_double_sep n \<Longrightarrow> str_replace n ''__'' ''_'' = n"
proof (induction n rule: has_double_sep.induct)
  case (1 a b cs)
  then have nd: "\<not> (a = CHR ''_'' \<and> b = CHR ''_'')" and ih: "str_replace (b # cs) ''__'' ''_'' = b # cs"
    by auto
  show ?case
  proof (cases "a = CHR ''_''")
    case False
    with ih show ?thesis by (simp del: str_replace.simps)
  next
    case True
    with nd have b: "b \<noteq> CHR ''_''" by simp
    with ih have "str_replace cs ''__'' ''_'' = cs" by (simp del: str_replace.simps)
    with True b show ?thesis by (simp del: str_replace.simps)
  qed
qed simp_all

lemma rstrip_id: "n = [] \<or> last n \<noteq> c \<Longrightarrow> rstrip n [c] = n"
  by (cases n rule: rev_cases) (auto simp: rstrip_def)

lemma rstrip_set: "set (rstrip s chars) \<subseteq> set s"
  by (auto simp: rstrip_def dest: set_dropWhileD)

lemma create_safe_filename_pipeline:
  "create_safe_filename n =
     rstrip (str_replace (map space_to_sep (filter (\<lambda>x. x \<notin> set (concat invalid_chars)) n)) ''__'' ''_'') ''.''"
  by (simp only: create_safe_filename_def Let_def remove_invalid_chars str_replace_space)

lemma create_safe_filename_chars:
  "set (create_safe_filename n) \<inter> insert CHR '' '' (set (concat invalid_chars)) = {}"
proof -
  let ?t = "map space_to_sep (filter (\<lambda>x. x \<notin> set (concat invalid_chars)) n)"
  have "set (create_safe_filename n) \<subseteq> set ?t"
    unfolding create_safe_filename_pipeline using rstrip_set collapse_set by blast
  moreover have "set ?t \<inter> insert CHR '' '' (set (concat invalid_chars)) = {}"
    by (auto simp: space_to_sep_def invalid_chars_def)
  ultimately show ?thesis by blast
qed

text \<open>
  Claim C8. The function collapses duplicate separators with a single call of
  \<^verbatim>\<open>replace('__', '_')\<close>, which replaces the non-overlapping pairs found in one pass from
  the left; of a run of three or more separators a duplicate is left. The identifier
  \<open>a   b\<close> (three spaces) becomes \<open>a__b\<close>, with two consecutive separators, where the
  claim requires none.
\<close>

theorem create_safe_filename_double_sep:
  "create_safe_filename ''a   b'' = ''a__b'' \<and> has_double_sep (create_safe_filename ''a   b'')"
  by code_simp

lemma create_safe_filename_plain:
  assumes p: "plain_identifier n"
  shows "create_safe_filename n = n"
proof -
  from p have all: "\<forall>x\<in>set n. x \<notin> set (concat invalid_chars) \<and> x \<noteq> CHR '' ''"
    and nd: "\<not> has_double_sep n" and nl: "n = [] \<or> last n \<noteq> CHR ''.''"
    unfolding plain_identifier_def list_all_iff by blast+
  from all have f: "filter (\<lambda>x. x \<notin> set (concat invalid_chars)) n = n"
    by (intro filter_True) blast
  from all have m: "map space_to_sep n = n"
    by (intro map_idI) (simp add: space_to_sep_def)
  have "create_safe_filename n = rstrip (str_replace n ''__'' ''_'') ''.''"
    by (simp only: create_safe_filename_pipeline f m)
  also have "\<dots> = rstrip n ''.''" by (simp only: collapse_id[OF nd])
  also have "\<dots> = n" using nl by (rule rstrip_id)
  finally show ?thesis .
qed

lemma create_safe_filename_no_slash: "CHR ''/'' \<notin> set (create_safe_filename n)"
proof -
  have "CHR ''/'' \<in> set (concat invalid_chars)" by (simp add: invalid_chars_def)
  with create_safe_filename_chars[of n] show ?thesis by blast
qed

lemma movie_filename_eq:
  "movie_filename folder n =
     (if folder = [] \<or> last folder = CHR ''/'' then folder else folder @ ''/'') @ create_safe_filename n @ ''_daily.csv''"
proof -
  have "\<not> prefix ''/'' (create_safe_filename n @ ''_daily.csv'')"
    using create_safe_filename_no_slash[of n] by (cases "create_safe_filename n") auto
  then show ?thesis by (simp add: movie_filename_def os_path_join_def)
qed

text \<open>
  Claim C9, amended. Two identifiers get the same per-entry output location exactly when
  their sanitized names agree. Sanitization is the identity on identifiers with no
  invalid character, no space, no adjacent separators and no trailing period, so two
  different such identifiers get different locations.
\<close>

theorem output_locations_distinct_iff:
  "(movie_filename folder n1 = movie_filename folder n2
      \<longleftrightarrow> create_safe_filename n1 = create_safe_filename n2)
   \<and> (plain_identifier n1 \<and> plain_identifier n2 \<and> n1 \<noteq> n2
        \<longrightarrow> movie_filename folder n1 \<noteq> movie_filename folder n2)"
  by (simp add: movie_filename_eq create_safe_filename_plain)

theorem output_locations_distinct_iff_witness:
  "plain_identifier ''Alien'' \<and> plain_identifier ''Aliens''
   \<and> movie_filename ''out'' ''Alien'' \<noteq> movie_filename ''out'' ''Aliens''"
proof -
  have a: "plain_identifier ''Alien''" by code_simp
  have b: "plain_identifier ''Aliens''" by code_simp
  have c: "''Alien'' \<noteq> ''Aliens''" by simp
  note t = output_locations_distinct_iff[of "''out''" "''Alien''" "''Aliens''"]
  from a b t[THEN conjunct2, THEN mp, OF conjI[OF a conjI[OF b c]]] show ?thesis
    by (intro conjI)
qed

text \<open>
  Claim C9 as stated fails: the identifiers \<open>A:B\<close> and \<open>AB\<close> differ and share the
  location \<open>out/AB_daily.csv\<close>.
\<close>

theorem output_location_not_injective:
  "\<not> (\<forall>n1 n2. n1 \<noteq> n2 \<longrightarrow> movie_filename ''out'' n1 \<noteq> movie_filename ''out'' n2)"
proof
  assume "\<forall>n1 n2. n1 \<noteq> n2 \<longrightarrow> movie_filename ''out'' n1 \<noteq> movie_filename ''out'' n2"
  then have "''A:B'' \<noteq> ''AB'' \<longrightarrow> movie_filename ''out'' ''A:B'' \<noteq> movie_filename ''out'' ''AB''"
    by (rule allE) (erule allE)
  moreover have a: "create_safe_filename ''A:B'' = ''AB''" by code_simp
  moreover have b: "create_safe_filename ''AB'' = ''AB''" by code_simp
  ultimately show False by (simp add: movie_filename_def)
qed

section \<open>Properties of the Fetcher\<close>

















section \<open>The batch scheduler: slices, the loop invariant, and the run\<close>

lemma iloc_nonneg:
  assumes "0 \<le> a" "0 \<le> b"
  shows "iloc xs a b = drop (nat a) (take (nat b) xs)"
proof -
  have "drop (nat (min a (int (length xs)))) (take (nat (min b (int (length xs)))) xs)
      = drop (nat a) (take (nat b) xs)"
  proof (cases "a \<le> int (length xs)")
    case True
    then have "min a (int (length xs)) = a" by simp
    moreover have "take (nat (min b (int (length xs)))) xs = take (nat b) xs"
      using assms by (cases "b \<le> int (length xs)") (simp_all add: min_def)
    ultimately show ?thesis by simp
  next
    case False
    then have "length xs \<le> nat a" by linarith
    moreover from False have "length xs \<le> nat (min a (int (length xs)))" by (simp add: min_def)
    ultimately show ?thesis by simp
  qed
  with assms show ?thesis by (simp add: iloc_def Let_def)
qed

lemma batch_rows_nat:
  assumes "0 \<le> start_row p" "1 \<le> batch_size p"
  shows "batch_rows df p k
      = take (nat (batch_size p)) (drop (nat (start_row p) + k * nat (batch_size p)) df)"
proof -
  let ?S = "nat (start_row p)" and ?B = "nat (batch_size p)"
  let ?a = "start_row p + int k * batch_size p"
  have a0: "0 \<le> ?a" using assms by simp
  have na: "nat ?a = ?S + k * ?B" using assms by (simp add: nat_add_distrib nat_mult_distrib)
  have nab: "nat (?a + batch_size p) = ?S + k * ?B + ?B"
    using assms a0 na by (simp add: nat_add_distrib)
  have b0: "0 \<le> min (?a + batch_size p) (int (length df))" using a0 assms by simp
  have "batch_rows df p k = drop (nat ?a) (take (nat (min (?a + batch_size p) (int (length df)))) df)"
    unfolding batch_rows_def Let_def using a0 b0 by (rule iloc_nonneg)
  also have "take (nat (min (?a + batch_size p) (int (length df)))) df = take (nat (?a + batch_size p)) df"
    by (cases "?a + batch_size p \<le> int (length df)") (simp_all add: min_def)
  also have "drop (nat ?a) (take (nat (?a + batch_size p)) df) = take ?B (drop (?S + k * ?B) df)"
    unfolding na nab by (simp add: take_drop add.commute)
  finally show ?thesis .
qed

lemma concat_slices:
  "concat (map (\<lambda>k. take B (drop (S + k * B) xs)) [0..<m]) = take (m * B) (drop S xs)"
proof (induction m)
  case 0 show ?case by simp
next
  case (Suc m)
  have "take (m * B + B) (drop S xs) = take (m * B) (drop S xs) @ take B (drop (m * B) (drop S xs))"
    by (rule take_add)
  moreover have "drop (m * B) (drop S xs) = drop (S + m * B) xs" by (simp add: add.commute)
  moreover have "Suc m * B = m * B + B" by simp
  ultimately have "take (Suc m * B) (drop S xs)
      = take (m * B) (drop S xs) @ take B (drop (S + m * B) xs)" by (simp only:)
  moreover have "concat (map (\<lambda>k. take B (drop (S + k * B) xs)) [0..<Suc m])
      = concat (map (\<lambda>k. take B (drop (S + k * B) xs)) [0..<m]) @ take B (drop (S + m * B) xs)"
    by simp
  ultimately show ?case using Suc by (simp only:)
qed

lemma total_batches_covers:
  assumes "0 \<le> start_row p" "1 \<le> batch_size p"
  shows "length df - nat (start_row p) \<le> nat (total_batches df p) * nat (batch_size p)"
proof (cases "int (length df) \<le> start_row p")
  case True
  then have "length df - nat (start_row p) = 0" by linarith
  then show ?thesis by simp
next
  case False
  let ?x = "int (length df) - start_row p" and ?b = "batch_size p"
  have x: "0 < ?x" using False by simp
  have "(?x + ?b - 1) mod ?b < ?b" using assms by simp
  moreover have "(?x + ?b - 1) div ?b * ?b = (?x + ?b - 1) - (?x + ?b - 1) mod ?b"
    by (simp add: minus_mod_eq_div_mult)
  ultimately have ge: "?x \<le> (?x + ?b - 1) div ?b * ?b" by linarith
  have tb0: "0 \<le> (?x + ?b - 1) div ?b" using x assms by (simp add: pos_imp_zdiv_nonneg_iff)
  have "int (length df - nat (start_row p)) = ?x" using False assms by simp
  also have "\<dots> \<le> (?x + ?b - 1) div ?b * ?b" by (rule ge)
  also have "\<dots> = int (nat (total_batches df p) * nat (batch_size p))"
    using tb0 assms by (simp add: total_batches_def Let_def)
  finally have "int (length df - nat (start_row p)) \<le> int (nat (total_batches df p) * nat (batch_size p))" .
  then show ?thesis by (simp only: of_nat_le_iff)
qed

lemma all_slices:
  assumes "0 \<le> start_row p" "1 \<le> batch_size p"
  shows "concat (map (batch_rows df p) [0..<nat (total_batches df p)]) = drop (nat (start_row p)) df"
proof -
  have e: "batch_rows df p
      = (\<lambda>k. take (nat (batch_size p)) (drop (nat (start_row p) + k * nat (batch_size p)) df))"
    by (rule ext) (rule batch_rows_nat[OF assms])
  have "concat (map (batch_rows df p) [0..<nat (total_batches df p)])
      = take (nat (total_batches df p) * nat (batch_size p)) (drop (nat (start_row p)) df)"
    unfolding e by (rule concat_slices)
  also have "\<dots> = drop (nat (start_row p)) df"
    using total_batches_covers[OF assms, of df] by simp
  finally show ?thesis .
qed

lemma record_result_cases:
  "record_result e r st = Inr (recorded r st)
   \<or> (\<exists>x st'. record_result e r st = Inl (x, st')
         \<and> submitted st' = submitted st \<and> combined_df st' = combined_df st)"
  by (cases r) (simp_all add: Let_def split: option.splits)

lemma record_result_ok:
  "marker_assignments_succeed e \<Longrightarrow> record_result e r st = Inr (recorded r st)"
  by (cases r) (simp_all add: marker_assignments_succeed_def Let_def)

lemma record_results_ok:
  "marker_assignments_succeed e \<Longrightarrow> record_results e rs st = Inr (fold recorded rs st)"
  by (induction rs arbitrary: st) (simp_all add: record_result_ok)

lemma fold_record_result:
  "metadata_df (fold recorded rs st) = map (\<lambda>r. fold mark_row rs r) (metadata_df st)
   \<and> all_movies_data (fold recorded rs st) = all_movies_data st @ success_data rs
   \<and> error_log (fold recorded rs st) = error_log st @ failure_log rs
   \<and> submitted (fold recorded rs st) = submitted st
   \<and> combined_df (fold recorded rs st) = combined_df st"
proof (induction rs arbitrary: st)
  case Nil
  show ?case by (simp add: success_data_def failure_log_def)
next
  case (Cons r rs)
  show ?case
    by (cases r)
       (simp_all add: Cons.IH success_data_def failure_log_def is_success_def loc_set_path_def)
qed

lemma mark_row_unmarked:
  "(mark_row r x)\<lparr>daily_box_office_path := None\<rparr> = x\<lparr>daily_box_office_path := None\<rparr>"
  by (cases r) simp_all

lemma mark_row_path:
  "daily_box_office_path (mark_row r x) = None
     \<longleftrightarrow> daily_box_office_path x = None \<and> \<not> (is_success r \<and> r_idx r = idx x)"
  by (cases r) (auto simp: is_success_def)

lemma idx_unmarked:
  "x\<lparr>daily_box_office_path := None\<rparr> = y\<lparr>daily_box_office_path := None\<rparr> \<Longrightarrow>
     idx x = idx y \<and> movie_name x = movie_name y \<and> release_year x = release_year y"
  by (cases x, cases y) simp

lemma fold_mark_row:
  "(fold mark_row rs x)\<lparr>daily_box_office_path := None\<rparr> = x\<lparr>daily_box_office_path := None\<rparr>
   \<and> (daily_box_office_path (fold mark_row rs x) = None
        \<longleftrightarrow> daily_box_office_path x = None \<and> idx x \<notin> set (success_idxs rs))"
proof (induction rs arbitrary: x)
  case Nil
  show ?case by (simp add: success_idxs_def)
next
  case (Cons r rs)
  have i: "idx (mark_row r x) = idx x"
    using idx_unmarked[OF mark_row_unmarked[of r x]] by simp
  have s: "set (success_idxs (r # rs)) = (if is_success r then {r_idx r} else {}) \<union> set (success_idxs rs)"
    by (simp add: success_idxs_def)
  show ?case
    using Cons.IH[of "mark_row r x"] mark_row_unmarked[of r x] mark_row_path[of r x] i s
    by auto
qed

lemma success_idxs_set: "set rs = set rs' \<Longrightarrow> set (success_idxs rs) = set (success_idxs rs')"
  by (simp add: success_idxs_def)

lemma process_movie_batch_idx: "r_idx (process_movie_batch e md) = md_idx md"
  by (simp add: process_movie_batch_def Let_def split: prod.splits option.splits)

lemma success_idxs_process:
  "set (success_idxs (map (process_movie_batch e) mds)) \<subseteq> md_idx ` set mds"
  by (auto simp: success_idxs_def process_movie_batch_idx)

lemma success_idxs_append:
  "set (success_idxs (xs @ ys)) = set (success_idxs xs) \<union> set (success_idxs ys)"
  by (simp add: success_idxs_def)

lemma batch_data_of_cong:
  "list_all2 (\<lambda>r0 r. r\<lparr>daily_box_office_path := None\<rparr> = r0\<lparr>daily_box_office_path := None\<rparr>
        \<and> (daily_box_office_path r = None \<longleftrightarrow> daily_box_office_path r0 = None)) xs0 xs
   \<Longrightarrow> batch_data_of p xs = batch_data_of p xs0"
proof (induction rule: list_all2_induct)
  case Nil
  show ?case by simp
next
  case (Cons r0 xs0 r xs)
  from Cons.hyps(1) have "movie_data_of p r = movie_data_of p r0"
    using idx_unmarked[of r r0] by (simp add: movie_data_of_def)
  with Cons show ?case by (simp add: batch_data_of_def)
qed

lemma md_idx_batch_data_of: "md_idx ` set (batch_data_of p xs) \<subseteq> idx ` set xs"
  by (auto simp: batch_data_of_def movie_data_of_def)

lemma batch_rows_before:
  assumes "0 \<le> start_row p" "1 \<le> batch_size p" "k < m"
  shows "set (batch_rows df p k) \<subseteq> set (take (nat (start_row p) + m * nat (batch_size p)) df)"
proof -
  let ?S = "nat (start_row p)" and ?B = "nat (batch_size p)"
  have "Suc k * ?B \<le> m * ?B" using assms(3) by (intro mult_le_mono1) simp
  then have le: "?S + k * ?B + ?B \<le> ?S + m * ?B" by simp
  have "batch_rows df p k = drop (?S + k * ?B) (take (?S + k * ?B + ?B) df)"
    by (simp add: batch_rows_nat[OF assms(1,2)] take_drop add.commute)
  then have "set (batch_rows df p k) \<subseteq> set (take (?S + k * ?B + ?B) df)"
    by (simp add: set_drop_subset)
  also have "\<dots> \<subseteq> set (take (?S + m * ?B) df)" using le by (rule set_take_subset_set_take)
  finally show ?thesis .
qed

lemma done_before_subset:
  assumes "0 \<le> start_row p" "1 \<le> batch_size p"
  shows "done_before e p df m \<subseteq> idx ` set (take (nat (start_row p) + m * nat (batch_size p)) df)"
proof
  fix i assume "i \<in> done_before e p df m"
  then have "i \<in> md_idx ` set (concat (map (planned_batch p df) [0..<m]))"
    unfolding done_before_def using success_idxs_process by blast
  then obtain k where k: "k < m" and "i \<in> md_idx ` set (planned_batch p df k)" by auto
  then have "i \<in> idx ` set (batch_rows df p k)"
    unfolding planned_batch_def using md_idx_batch_data_of by blast
  with batch_rows_before[OF assms k, of df]
  show "i \<in> idx ` set (take (nat (start_row p) + m * nat (batch_size p)) df)" by blast
qed

lemma slice_fresh:
  assumes "distinct (map idx df)" "r \<in> set (drop n df)"
  shows "idx r \<notin> idx ` set (take n df)"
proof -
  have "distinct (map idx (take n df) @ map idx (drop n df))"
    using assms(1) by (simp only: map_append[symmetric] append_take_drop_id)
  then have "set (map idx (take n df)) \<inter> set (map idx (drop n df)) = {}" by simp
  with assms(2) show ?thesis by auto
qed

lemma current_batch:
  assumes s: "0 \<le> start_row p" and b: "1 \<le> batch_size p" and d: "distinct (map idx df0)"
    and t: "list_all2 (tracks (done_before e p df0 m)) df0 df"
  shows "batch_data_of p (batch_rows df p m) = planned_batch p df0 m"
proof -
  let ?n = "nat (start_row p) + m * nat (batch_size p)" and ?B = "nat (batch_size p)"
  have sl: "list_all2 (tracks (done_before e p df0 m)) (take ?B (drop ?n df0)) (take ?B (drop ?n df))"
    using t by (intro list_all2_takeI list_all2_dropI)
  have fresh: "idx r0 \<notin> done_before e p df0 m" if "r0 \<in> set (take ?B (drop ?n df0))" for r0
  proof -
    from that have "r0 \<in> set (drop ?n df0)" by (rule in_set_takeD)
    from slice_fresh[OF d this] done_before_subset[OF s b, of e df0 m]
    show ?thesis by blast
  qed
  from sl have "list_all2 (\<lambda>r0 r. r\<lparr>daily_box_office_path := None\<rparr> = r0\<lparr>daily_box_office_path := None\<rparr>
        \<and> (daily_box_office_path r = None \<longleftrightarrow> daily_box_office_path r0 = None))
      (take ?B (drop ?n df0)) (take ?B (drop ?n df))"
  proof (rule list.rel_mono_strong)
    fix r0 r
    assume "r0 \<in> set (take ?B (drop ?n df0))" and "tracks (done_before e p df0 m) r0 r"
    with fresh[of r0]
    show "r\<lparr>daily_box_office_path := None\<rparr> = r0\<lparr>daily_box_office_path := None\<rparr>
        \<and> (daily_box_office_path r = None \<longleftrightarrow> daily_box_office_path r0 = None)"
      by (simp add: tracks_def)
  qed
  then have "batch_data_of p (take ?B (drop ?n df)) = batch_data_of p (take ?B (drop ?n df0))"
    by (rule batch_data_of_cong)
  then show ?thesis by (simp add: planned_batch_def batch_rows_nat[OF s b])
qed

lemma done_before_Suc:
  "done_before e p df (Suc m)
     = done_before e p df m \<union> set (success_idxs (map (process_movie_batch e) (planned_batch p df m)))"
  by (simp add: done_before_def success_idxs_append)

lemma tracks_step:
  assumes "tracks D r0 r"
  shows "tracks (D \<union> set (success_idxs rs)) r0 (fold mark_row rs r)"
proof -
  from assms have "idx r = idx r0" using idx_unmarked[of r r0] by (simp add: tracks_def)
  with assms fold_mark_row[of rs r] show ?thesis by (auto simp: tracks_def)
qed

lemma batch_results_set:
  assumes "completion_is_permutation e"
  shows "set (batch_results e p df k) = set (map (process_movie_batch e) (planned_batch p df k))"
  using assms unfolding completion_is_permutation_def batch_results_def by (metis mset_eq_setD)

lemma batch_results_empty:
  assumes "completion_is_permutation e" "planned_batch p df k = []"
  shows "batch_results e p df k = []"
  using batch_results_set[OF assms(1), of p df k] assms(2) by simp

lemma process_batch_planned:
  assumes w: "well_formed_run e df0 p" and a: "after_batches e p df0 m st"
  shows "process_batch e p m st
      = (if planned_batch p df0 m = [] then Inr st
         else case record_results e (batch_results e p df0 m)
                     (st\<lparr>submitted := submitted st @ [planned_batch p df0 m]\<rparr>) of
                Inl x \<Rightarrow> Inl x
              | Inr st' \<Rightarrow> batch_persisted e m st')"
proof -
  from w have s: "0 \<le> start_row p" and b: "1 \<le> batch_size p" and d: "distinct (map idx df0)"
    and mw: "\<not> max_workers p \<le> 0"
    by (simp_all add: well_formed_run_def)
  from a have t: "list_all2 (tracks (done_before e p df0 m)) df0 (metadata_df st)"
    by (simp add: after_batches_def)
  have c: "batch_data_of p (batch_rows (metadata_df st) p m) = planned_batch p df0 m"
    using s b d t by (rule current_batch)
  show ?thesis
    unfolding process_batch_def Let_def c
    by (simp add: mw batch_persisted_def batch_results_def split: sum.splits)
qed

lemma process_batch_assigned:
  assumes w: "well_formed_run e df0 p" and ms: "marker_assignments_succeed e"
    and a: "after_batches e p df0 m st"
  shows "process_batch e p m st
      = (if planned_batch p df0 m = [] then Inr st
         else batch_persisted e m (batch_state e p df0 m st))"
  unfolding process_batch_planned[OF w a]
  by (simp add: record_results_ok[OF ms] batch_state_def)

lemma after_batches_step:
  assumes w: "well_formed_run e df0 p" and a: "after_batches e p df0 m st"
  shows "after_batches e p df0 (Suc m) (batch_state e p df0 m st)"
proof (cases "planned_batch p df0 m = []")
  case True
  from w have perm: "completion_is_permutation e" by (simp add: well_formed_run_def)
  have r: "batch_results e p df0 m = []" using perm True by (rule batch_results_empty)
  have "done_before e p df0 (Suc m) = done_before e p df0 m"
    by (simp add: done_before_Suc True success_idxs_def)
  with a True r show ?thesis
    by (simp add: after_batches_def batch_state_def success_data_def failure_log_def)
next
  case False
  from w have perm: "completion_is_permutation e" by (simp add: well_formed_run_def)
  let ?rs = "batch_results e p df0 m"
  let ?st = "fold recorded ?rs (st\<lparr>submitted := submitted st @ [planned_batch p df0 m]\<rparr>)"
  note f = fold_record_result[of ?rs "st\<lparr>submitted := submitted st @ [planned_batch p df0 m]\<rparr>"]
  have st: "batch_state e p df0 m st = ?st" using False by (simp add: batch_state_def)
  have D: "done_before e p df0 (Suc m) = done_before e p df0 m \<union> set (success_idxs ?rs)"
    unfolding done_before_Suc
    using success_idxs_set[OF batch_results_set[OF perm, of p df0 m]] by simp
  from a have t: "list_all2 (tracks (done_before e p df0 m)) df0 (metadata_df st)"
    by (simp add: after_batches_def)
  have "list_all2 (tracks (done_before e p df0 (Suc m))) df0
          (map (\<lambda>r. fold mark_row ?rs r) (metadata_df st))"
    unfolding D list_all2_map2 using t
    by (rule list_all2_mono) (rule tracks_step)
  then have 1: "list_all2 (tracks (done_before e p df0 (Suc m))) df0 (metadata_df ?st)"
    using f by simp
  have 2: "submitted ?st = filter (\<lambda>b. b \<noteq> []) (map (planned_batch p df0) [0..<Suc m])"
    using f a False by (simp add: after_batches_def)
  have 3: "all_movies_data ?st
      = concat (map (\<lambda>k. success_data (batch_results e p df0 k)) [0..<Suc m])"
    using f a by (simp add: after_batches_def)
  have 4: "error_log ?st = concat (map (\<lambda>k. failure_log (batch_results e p df0 k)) [0..<Suc m])"
    using f a by (simp add: after_batches_def)
  have 5: "combined_df ?st = None" using f a by (simp add: after_batches_def)
  from 1 2 3 4 5 show ?thesis unfolding st after_batches_def by (intro conjI)
qed

lemma run_batches_append:
  "run_batches e p (ks @ ks') st
     = (case run_batches e p ks st of Inl x \<Rightarrow> Inl x | Inr st' \<Rightarrow> run_batches e p ks' st')"
  by (induction ks arbitrary: st) (simp_all split: sum.splits)

lemma after_batches_initial: "after_batches e p df 0 (initial_state df)"
proof -
  have "tracks {} r r" for r by (simp add: tracks_def)
  then have "list_all2 (tracks {}) df df" by (simp add: list_all2_same)
  then show ?thesis
    by (simp add: after_batches_def initial_state_def done_before_def success_idxs_def)
qed

lemma run_batches_persisting:
  assumes w: "well_formed_run e df p" and ms: "marker_assignments_succeed e"
    and ok: "persistence_succeeds_before e m"
  shows "\<exists>st. run_batches e p [0..<m] (initial_state df) = Inr st \<and> after_batches e p df m st"
  using ok
proof (induction m)
  case 0
  show ?case using after_batches_initial by simp
next
  case (Suc m)
  from Suc.prems have okm: "persistence_succeeds_before e m"
    and wm: "write_metadata e m = None" "write_error_log e m = None"
    by (simp_all add: persistence_succeeds_before_def)
  from Suc.IH[OF okm] obtain st where r: "run_batches e p [0..<m] (initial_state df) = Inr st"
    and a: "after_batches e p df m st" by blast
  have pb: "process_batch e p m st = Inr (batch_state e p df m st)"
    unfolding process_batch_assigned[OF w ms a]
    by (simp add: batch_persisted_def wm batch_state_def)
  have "run_batches e p [0..<Suc m] (initial_state df) = Inr (batch_state e p df m st)"
    using r pb by (simp add: run_batches_append)
  with after_batches_step[OF w a] show ?case by blast
qed

text \<open>
  Without the assumption on the marker assignments a run either gets through the
  batches before \<open>m\<close> as above, or has raised in one of them, after submitting it.
\<close>

lemma record_results_cases:
  "record_results e rs st = Inr (fold recorded rs st)
   \<or> (\<exists>x st'. record_results e rs st = Inl (x, st')
         \<and> submitted st' = submitted st \<and> combined_df st' = combined_df st)"
proof (induction rs arbitrary: st)
  case Nil
  show ?case by simp
next
  case (Cons r rs)
  from record_result_cases[of e r st] show ?case
  proof
    assume ok: "record_result e r st = Inr (recorded r st)"
    have keep: "submitted (recorded r st) = submitted st"
      "combined_df (recorded r st) = combined_df st"
      by (cases r; simp)+
    from Cons.IH[of "recorded r st"] ok keep show ?thesis by auto
  next
    assume "\<exists>x st'. record_result e r st = Inl (x, st')
         \<and> submitted st' = submitted st \<and> combined_df st' = combined_df st"
    then show ?thesis by auto
  qed
qed

lemma run_batches_general:
  assumes w: "well_formed_run e df p" and ok: "persistence_succeeds_before e m"
  shows "(\<exists>st. run_batches e p [0..<m] (initial_state df) = Inr st \<and> after_batches e p df m st)
      \<or> (\<exists>x st j. j < m \<and> run_batches e p [0..<m] (initial_state df) = Inl (x, st)
            \<and> submitted st = filter (\<lambda>b. b \<noteq> []) (map (planned_batch p df) [0..<Suc j])
            \<and> combined_df st = None)"
  using ok
proof (induction m)
  case 0
  show ?case using after_batches_initial by simp
next
  case (Suc m)
  from Suc.prems have okm: "persistence_succeeds_before e m"
    and wm: "write_metadata e m = None" "write_error_log e m = None"
    by (simp_all add: persistence_succeeds_before_def)
  from Suc.IH[OF okm] show ?case
  proof
    assume "\<exists>x st j. j < m \<and> run_batches e p [0..<m] (initial_state df) = Inl (x, st)
            \<and> submitted st = filter (\<lambda>b. b \<noteq> []) (map (planned_batch p df) [0..<Suc j])
            \<and> combined_df st = None"
    then obtain x st j where j: "j < m"
      and r: "run_batches e p [0..<m] (initial_state df) = Inl (x, st)"
      and s: "submitted st = filter (\<lambda>b. b \<noteq> []) (map (planned_batch p df) [0..<Suc j])"
      and c: "combined_df st = None" by blast
    from r have "run_batches e p [0..<Suc m] (initial_state df) = Inl (x, st)"
      by (simp add: run_batches_append)
    moreover from j have "j < Suc m" by simp
    ultimately show ?thesis using s c by blast
  next
    assume "\<exists>st. run_batches e p [0..<m] (initial_state df) = Inr st \<and> after_batches e p df m st"
    then obtain st where r: "run_batches e p [0..<m] (initial_state df) = Inr st"
      and a: "after_batches e p df m st" by blast
    let ?st0 = "st\<lparr>submitted := submitted st @ [planned_batch p df m]\<rparr>"
    show ?thesis
    proof (cases "planned_batch p df m = []")
      case True
      then have "process_batch e p m st = Inr (batch_state e p df m st)"
        unfolding process_batch_planned[OF w a] by (simp add: batch_state_def)
      then have "run_batches e p [0..<Suc m] (initial_state df) = Inr (batch_state e p df m st)"
        using r by (simp add: run_batches_append)
      with after_batches_step[OF w a] show ?thesis by blast
    next
      case False
      from record_results_cases[of e "batch_results e p df m" ?st0] show ?thesis
      proof
        assume rr: "record_results e (batch_results e p df m) ?st0
            = Inr (fold recorded (batch_results e p df m) ?st0)"
        have "process_batch e p m st = Inr (batch_state e p df m st)"
          unfolding process_batch_planned[OF w a] using False rr
          by (simp add: batch_persisted_def wm batch_state_def)
        then have "run_batches e p [0..<Suc m] (initial_state df) = Inr (batch_state e p df m st)"
          using r by (simp add: run_batches_append)
        with after_batches_step[OF w a] show ?thesis by blast
      next
        assume "\<exists>x st'. record_results e (batch_results e p df m) ?st0 = Inl (x, st')
            \<and> submitted st' = submitted ?st0 \<and> combined_df st' = combined_df ?st0"
        then obtain x st' where rr: "record_results e (batch_results e p df m) ?st0 = Inl (x, st')"
          and s: "submitted st' = submitted ?st0" and c: "combined_df st' = combined_df ?st0"
          by blast
        have "process_batch e p m st = Inl (x, st')"
          unfolding process_batch_planned[OF w a] using False rr by simp
        then have run: "run_batches e p [0..<Suc m] (initial_state df) = Inl (x, st')"
          using r by (simp add: run_batches_append)
        from a s False have "submitted st'
            = filter (\<lambda>b. b \<noteq> []) (map (planned_batch p df) [0..<Suc m])"
          by (simp add: after_batches_def)
        moreover from a c have "combined_df st' = None" by (simp add: after_batches_def)
        ultimately show ?thesis using run by blast
      qed
    qed
  qed
qed

lemma concat_nonempty: "concat (filter (\<lambda>b. b \<noteq> []) xss) = concat xss"
  by (induction xss) simp_all

lemma planned_batch_rows:
  "planned_batch p df k
     = map (movie_data_of p) (filter (\<lambda>r. daily_box_office_path r = None) (batch_rows df p k))"
  by (simp add: planned_batch_def batch_data_of_def)

lemma planned_concat_rows:
  "concat (map (planned_batch p df) ks)
     = map (movie_data_of p)
         (filter (\<lambda>r. daily_box_office_path r = None) (concat (map (batch_rows df p) ks)))"
  by (induction ks) (simp_all add: planned_batch_rows)

lemma planned_concat_all:
  assumes "0 \<le> start_row p" "1 \<le> batch_size p"
  shows "concat (map (planned_batch p df) [0..<nat (total_batches df p)]) = item_filter p df"
  by (simp only: planned_concat_rows all_slices[OF assms] item_filter_def)

lemma planned_concat_upto:
  assumes "0 \<le> start_row p" "1 \<le> batch_size p"
  shows "concat (map (planned_batch p df) [0..<m])
     = map (movie_data_of p) (filter (\<lambda>r. daily_box_office_path r = None)
         (take (m * nat (batch_size p)) (drop (nat (start_row p)) df)))"
proof -
  have e: "batch_rows df p
      = (\<lambda>k. take (nat (batch_size p)) (drop (nat (start_row p) + k * nat (batch_size p)) df))"
    by (rule ext) (rule batch_rows_nat[OF assms])
  show ?thesis unfolding planned_concat_rows e concat_slices ..
qed

lemma item_filter_distinct:
  assumes "distinct (map idx df)"
  shows "distinct (map md_idx (item_filter p df))"
proof -
  have "map md_idx (item_filter p df)
      = map idx (filter (\<lambda>r. daily_box_office_path r = None) (drop (nat (start_row p)) df))"
    by (simp add: item_filter_def movie_data_of_def comp_def)
  moreover have "distinct (map idx (drop (nat (start_row p)) df))"
    using assms by (simp add: drop_map[symmetric])
  ultimately show ?thesis by (simp add: distinct_map_filter)
qed

lemma length_planned_batch:
  assumes "0 \<le> start_row p" "1 \<le> batch_size p"
  shows "length (planned_batch p df k) \<le> nat (batch_size p)"
proof -
  have "length (planned_batch p df k) \<le> length (batch_rows df p k)"
    by (simp add: planned_batch_rows)
  also have "\<dots> \<le> nat (batch_size p)" by (simp add: batch_rows_nat[OF assms])
  finally show ?thesis .
qed

lemma parallel_scrape_movies_returns:
  assumes w: "well_formed_run e df p" and ms: "marker_assignments_succeed e"
    and ok: "persistence_succeeds_before e (nat (total_batches df p))"
  shows "\<exists>st0. after_batches e p df (nat (total_batches df p)) st0
      \<and> parallel_scrape_movies e df p
          = Inr (st0\<lparr>combined_df := if all_movies_data st0 = [] then None
                                    else Some (concat (all_movies_data st0))\<rparr>)"
proof -
  from run_batches_persisting[OF w ms ok] obtain st0
    where r: "run_batches e p [0..<nat (total_batches df p)] (initial_state df) = Inr st0"
      and a: "after_batches e p df (nat (total_batches df p)) st0" by blast
  from w have b: "batch_size p \<noteq> 0" "makedirs e = None" by (simp_all add: well_formed_run_def)
  from a have "combined_df st0 = None" by (simp add: after_batches_def)
  then have n: "st0\<lparr>combined_df := None\<rparr> = st0" by simp
  have "parallel_scrape_movies e df p
      = Inr (st0\<lparr>combined_df := if all_movies_data st0 = [] then None
                                else Some (concat (all_movies_data st0))\<rparr>)"
    unfolding parallel_scrape_movies_def using b r n by (simp split: option.splits)
  with a show ?thesis by blast
qed

lemma success_data_mset: "mset rs = mset rs' \<Longrightarrow> mset (success_data rs) = mset (success_data rs')"
proof -
  assume "mset rs = mset rs'"
  then have "image_mset r_data (filter_mset is_success (mset rs))
      = image_mset r_data (filter_mset is_success (mset rs'))" by simp
  then show ?thesis by (simp add: success_data_def)
qed

lemma success_data_concat:
  "success_data (map f (concat xss)) = concat (map (\<lambda>xs. success_data (map f xs)) xss)"
  by (induction xss) (simp_all add: success_data_def)

lemma mset_concat_cong:
  "(\<And>k. k \<in> set ks \<Longrightarrow> mset (f k) = mset (g k)) \<Longrightarrow>
     mset (concat (map f ks)) = mset (concat (map g ks))"
  by (induction ks) simp_all

lemma batch_results_mset:
  assumes "completion_is_permutation e"
  shows "mset (batch_results e p df k) = mset (map (process_movie_batch e) (planned_batch p df k))"
  using assms by (simp add: completion_is_permutation_def batch_results_def)

lemma tracks_same_rows:
  assumes "list_all2 (tracks D) df df'"
  shows "map idx df' = map idx df" and "length df' = length df"
proof -
  show "map idx df' = map idx df"
    using assms
  proof (induction rule: list_all2_induct)
    case Nil show ?case by simp
  next
    case (Cons r0 xs0 r xs)
    from Cons.hyps(1) have "idx r = idx r0" using idx_unmarked[of r r0] by (simp add: tracks_def)
    with Cons.IH show ?case by simp
  qed
  show "length df' = length df" using assms by (simp add: list_all2_lengthD)
qed

lemma item_filter_tracks:
  assumes "list_all2 (tracks D) xs0 xs"
    and "\<And>r0. r0 \<in> set xs0 \<Longrightarrow> daily_box_office_path r0 = None \<Longrightarrow>
           (idx r0 \<in> D \<longleftrightarrow> Q (movie_data_of p r0))"
  shows "map (movie_data_of p) (filter (\<lambda>r. daily_box_office_path r = None) xs)
      = filter (\<lambda>md. \<not> Q md)
          (map (movie_data_of p) (filter (\<lambda>r. daily_box_office_path r = None) xs0))"
  using assms
proof (induction rule: list_all2_induct)
  case Nil show ?case by simp
next
  case (Cons r0 xs0 r xs)
  from Cons.hyps(1) have u: "movie_data_of p r = movie_data_of p r0"
    using idx_unmarked[of r r0] by (simp add: tracks_def movie_data_of_def)
  from Cons.hyps(1) have n: "daily_box_office_path r = None
      \<longleftrightarrow> daily_box_office_path r0 = None \<and> idx r0 \<notin> D" by (simp add: tracks_def)
  have q: "daily_box_office_path r0 = None \<Longrightarrow> (idx r0 \<in> D \<longleftrightarrow> Q (movie_data_of p r0))"
    using Cons.prems[of r0] by simp
  have ih: "map (movie_data_of p) (filter (\<lambda>r. daily_box_office_path r = None) xs)
      = filter (\<lambda>md. \<not> Q md)
          (map (movie_data_of p) (filter (\<lambda>r. daily_box_office_path r = None) xs0))"
    using Cons.prems by (intro Cons.IH) simp_all
  show ?case
  proof (cases "daily_box_office_path r0 = None")
    case True
    with n q ih u show ?thesis by simp
  next
    case False
    with n ih show ?thesis by simp
  qed
qed

lemma done_before_all:
  assumes s: "0 \<le> start_row p" and b: "1 \<le> batch_size p" and d: "distinct (map idx df)"
    and r0: "r0 \<in> set (drop (nat (start_row p)) df)" and n: "daily_box_office_path r0 = None"
  shows "idx r0 \<in> done_before e p df (nat (total_batches df p))
      \<longleftrightarrow> is_success (process_movie_batch e (movie_data_of p r0))"
proof
  assume "idx r0 \<in> done_before e p df (nat (total_batches df p))"
  then have "idx r0 \<in> set (success_idxs (map (process_movie_batch e) (item_filter p df)))"
    by (simp only: done_before_def planned_concat_all[OF s b])
  then obtain md where md: "md \<in> set (item_filter p df)"
    and su: "is_success (process_movie_batch e md)" and i: "md_idx md = idx r0"
    by (auto simp: success_idxs_def process_movie_batch_idx)
  from md obtain r where r: "r \<in> set (drop (nat (start_row p)) df)" and m: "md = movie_data_of p r"
    by (auto simp: item_filter_def)
  from i m have "idx r = idx r0" by (simp add: movie_data_of_def)
  moreover from r r0 have "r \<in> set df" "r0 \<in> set df" by (auto dest: in_set_dropD)
  moreover from d have "inj_on idx (set df)" by (simp add: distinct_map)
  ultimately have "r = r0" by (auto dest: inj_onD)
  with su m show "is_success (process_movie_batch e (movie_data_of p r0))" by simp
next
  assume su: "is_success (process_movie_batch e (movie_data_of p r0))"
  from r0 n have "movie_data_of p r0 \<in> set (item_filter p df)" by (simp add: item_filter_def)
  with su have "process_movie_batch e (movie_data_of p r0)
      \<in> set (filter is_success (map (process_movie_batch e) (item_filter p df)))" by simp
  then have "r_idx (process_movie_batch e (movie_data_of p r0))
      \<in> set (success_idxs (map (process_movie_batch e) (item_filter p df)))"
    unfolding success_idxs_def set_map by (rule imageI)
  then show "idx r0 \<in> done_before e p df (nat (total_batches df p))"
    by (simp add: done_before_def planned_concat_all[OF s b] process_movie_batch_idx movie_data_of_def)
qed

section \<open>Properties of the batch scheduler\<close>

text \<open>The small catalog and its worlds meet the assumptions of the theorems below.\<close>

lemma demo_well_formed: "well_formed_run demo_env demo_catalog demo_params"
  by (simp add: well_formed_run_def completion_is_permutation_def demo_env_def demo_catalog_def
      demo_params_def)

lemma demo_persists: "persistence_succeeds_before demo_env m"
  by (simp add: persistence_succeeds_before_def demo_env_def)

lemma demo_assigns: "marker_assignments_succeed demo_env"
  by (simp add: marker_assignments_succeed_def demo_env_def)

lemma demo_in_order_assigns: "marker_assignments_succeed demo_env_in_order"
  by (simp add: marker_assignments_succeed_def demo_env_in_order_def demo_env_def)

lemma demo_disk_full_assigns: "marker_assignments_succeed demo_env_disk_full"
  by (simp add: marker_assignments_succeed_def demo_env_disk_full_def demo_env_def)

lemma demo_in_order_well_formed: "well_formed_run demo_env_in_order demo_catalog demo_params"
  by (simp add: well_formed_run_def completion_is_permutation_def demo_env_in_order_def
      demo_env_def demo_catalog_def demo_params_def)

lemma demo_in_order_persists: "persistence_succeeds_before demo_env_in_order m"
  by (simp add: persistence_succeeds_before_def demo_env_in_order_def demo_env_def)

lemma demo_disk_full_well_formed: "well_formed_run demo_env_disk_full demo_catalog demo_params"
  by (simp add: well_formed_run_def completion_is_permutation_def demo_env_disk_full_def
      demo_env_def demo_catalog_def demo_params_def)

text \<open>
  A refused marker assignment ends the run at the first success: batch 0 holds row 11
  alone, whose fetch fails; in batch 1 the future of row 13 completes first and succeeds,
  its record set is kept, and the assignment of its marker raises. No marker is set, row
  12 is never recorded, and the writes after batch 1 do not happen.
\<close>

lemma refused_marker_assignment_ends_run:
  "raised (parallel_scrape_movies demo_env_numeric_marker demo_catalog demo_params)
     = Some (TypeError ''Invalid value for dtype float64'')
   \<and> map (map md_idx) (submitted (final_state
        (parallel_scrape_movies demo_env_numeric_marker demo_catalog demo_params)))
     = [[11], [12, 13]]
   \<and> metadata_df (final_state
        (parallel_scrape_movies demo_env_numeric_marker demo_catalog demo_params))
     = demo_catalog
   \<and> length (all_movies_data (final_state
        (parallel_scrape_movies demo_env_numeric_marker demo_catalog demo_params))) = 1"
  by code_simp

text \<open>
  Claim C1, amended. For a catalog with distinct row labels, a start offset that is not
  negative, a batch size and a worker count of at least one, and a run in which the
  output folder can be created and no marker assignment and no per-batch write raises:
  the run returns, and the work items handed to the executor over all batches are, in
  order, exactly the filtered rows, each once and none missing, whatever the completion
  order.
\<close>

theorem submitted_is_filtered_once:
  assumes "well_formed_run e df p"
    and "marker_assignments_succeed e"
    and "persistence_succeeds_before e (nat (total_batches df p))"
  shows "\<exists>st. parallel_scrape_movies e df p = Inr st
      \<and> concat (submitted st) = item_filter p df
      \<and> distinct (map md_idx (concat (submitted st)))
      \<and> mset (concat (submitted st)) = mset (item_filter p df)"
proof -
  from assms(1) have s: "0 \<le> start_row p" and b: "1 \<le> batch_size p"
    and d: "distinct (map idx df)" by (simp_all add: well_formed_run_def)
  from parallel_scrape_movies_returns[OF assms] obtain st0
    where a: "after_batches e p df (nat (total_batches df p)) st0"
      and r: "parallel_scrape_movies e df p
          = Inr (st0\<lparr>combined_df := if all_movies_data st0 = [] then None
                                    else Some (concat (all_movies_data st0))\<rparr>)" by blast
  from a have "concat (submitted st0) = item_filter p df"
    by (simp add: after_batches_def concat_nonempty planned_concat_all[OF s b])
  with r item_filter_distinct[OF d, of p] show ?thesis by simp
qed

theorem submitted_is_filtered_once_witness:
  "well_formed_run demo_env demo_catalog demo_params
   \<and> marker_assignments_succeed demo_env
   \<and> persistence_succeeds_before demo_env (nat (total_batches demo_catalog demo_params))
   \<and> (\<exists>st. parallel_scrape_movies demo_env demo_catalog demo_params = Inr st
        \<and> concat (submitted st) = item_filter demo_params demo_catalog
        \<and> distinct (map md_idx (concat (submitted st)))
        \<and> mset (concat (submitted st)) = mset (item_filter demo_params demo_catalog))"
  using demo_well_formed demo_assigns demo_persists
    submitted_is_filtered_once[OF demo_well_formed demo_assigns demo_persists]
  by (intro conjI)

text \<open>
  Claim C1 as stated fails for a negative start offset, where the slices of \<^verbatim>\<open>iloc\<close>
  count from the end of the catalog: with \<open>start_row = -3\<close> and a batch size of 2 the
  four-row catalog is cut into the row ranges \<open>[-3:-1]\<close>, \<open>[-1:1]\<close>, \<open>[1:3]\<close> and
  \<open>[3:4]\<close>, and row 11, whose fetch fails, is submitted twice.
\<close>

theorem negative_start_row_submits_twice:
  "raised (parallel_scrape_movies demo_env demo_catalog (demo_params\<lparr>start_row := - 3\<rparr>)) = None
   \<and> map (map md_idx) (submitted (final_state
        (parallel_scrape_movies demo_env demo_catalog (demo_params\<lparr>start_row := - 3\<rparr>))))
     = [[11, 12], [11], [13]]"
  by code_simp

text \<open>
  Claim C3, amended. For a catalog with distinct row labels, a start offset that is not
  negative, a batch size and a worker count of at least one, and a run in which the
  output folder can be created and no marker assignment and no per-batch write raises:
  the batches handed to the executor are, in order, the non-empty ones among the filtered
  slices of the raw catalog row range.
  Batch \<open>k\<close> holds the unmarked rows at positions from \<open>start_row + k * batch_size\<close> up
  to, not including, \<open>start_row + (k + 1) * batch_size\<close>. Each has at most
  \<open>batch_size\<close> items, and together they are the filtered rows.
\<close>

theorem batches_are_filtered_row_slices:
  assumes "well_formed_run e df p"
    and "marker_assignments_succeed e"
    and "persistence_succeeds_before e (nat (total_batches df p))"
  shows "\<exists>st. parallel_scrape_movies e df p = Inr st
      \<and> submitted st = filter (\<lambda>b. b \<noteq> [])
          (map (\<lambda>k. map (movie_data_of p) (filter (\<lambda>r. daily_box_office_path r = None)
                   (take (nat (batch_size p)) (drop (nat (start_row p) + k * nat (batch_size p)) df))))
             [0..<nat (total_batches df p)])
      \<and> list_all (\<lambda>b. length b \<le> nat (batch_size p)) (submitted st)
      \<and> concat (submitted st) = item_filter p df"
proof -
  from assms(1) have s: "0 \<le> start_row p" and b: "1 \<le> batch_size p"
    by (simp_all add: well_formed_run_def)
  from parallel_scrape_movies_returns[OF assms] obtain st0
    where a: "after_batches e p df (nat (total_batches df p)) st0"
      and r: "parallel_scrape_movies e df p
          = Inr (st0\<lparr>combined_df := if all_movies_data st0 = [] then None
                                    else Some (concat (all_movies_data st0))\<rparr>)" by blast
  have pl: "planned_batch p df
      = (\<lambda>k. map (movie_data_of p) (filter (\<lambda>r. daily_box_office_path r = None)
           (take (nat (batch_size p)) (drop (nat (start_row p) + k * nat (batch_size p)) df))))"
    by (rule ext) (simp add: planned_batch_rows batch_rows_nat[OF s b])
  from a have sub: "submitted st0 = filter (\<lambda>b. b \<noteq> [])
      (map (planned_batch p df) [0..<nat (total_batches df p)])"
    by (simp add: after_batches_def)
  have len: "list_all (\<lambda>b. length b \<le> nat (batch_size p)) (submitted st0)"
    unfolding sub list_all_iff using length_planned_batch[OF s b, of df] by auto
  have "concat (submitted st0) = item_filter p df"
    unfolding sub by (simp add: concat_nonempty planned_concat_all[OF s b])
  with r sub len show ?thesis unfolding pl by simp
qed

theorem batches_are_filtered_row_slices_witness:
  "well_formed_run demo_env demo_catalog demo_params
   \<and> marker_assignments_succeed demo_env
   \<and> persistence_succeeds_before demo_env (nat (total_batches demo_catalog demo_params))
   \<and> (\<exists>st. parallel_scrape_movies demo_env demo_catalog demo_params = Inr st
        \<and> list_all (\<lambda>b. length b \<le> nat (batch_size demo_params)) (submitted st)
        \<and> concat (submitted st) = item_filter demo_params demo_catalog)"
proof -
  from batches_are_filtered_row_slices[OF demo_well_formed demo_assigns demo_persists]
  have "\<exists>st. parallel_scrape_movies demo_env demo_catalog demo_params = Inr st
        \<and> list_all (\<lambda>b. length b \<le> nat (batch_size demo_params)) (submitted st)
        \<and> concat (submitted st) = item_filter demo_params demo_catalog" by blast
  with demo_well_formed demo_assigns demo_persists show ?thesis by (intro conjI)
qed

text \<open>
  Claim C3 as stated fails: with the first of four rows completed and a batch size of 2,
  the filtered rows 11, 12, 13 are submitted as \<open>[11]\<close> and \<open>[12, 13]\<close>, while their
  consecutive slices of length 2 are \<open>[11, 12]\<close> and \<open>[13]\<close>.
\<close>

theorem batches_are_not_slices_of_filtered:
  "map (map md_idx) (submitted (final_state (parallel_scrape_movies demo_env demo_catalog demo_params)))
     = [[11], [12, 13]]
   \<and> map (map md_idx) (chunks (nat (batch_size demo_params)) (item_filter demo_params demo_catalog))
     = [[11, 12], [13]]"
  by code_simp

text \<open>
  Claim C2, amended. For a catalog with distinct row labels, a start offset that is not
  negative, a batch size and a worker count of at least one, and a run in which the
  output folder can be created and no marker assignment and no per-batch write raises:
  the record sets are collected batch by batch, and within a batch in the order in which
  its futures complete; the combined data set is their concatenation in that order. It is therefore a rearrangement of the successful
  entries' record sets in catalog order, and it is in catalog order when the futures of
  every batch complete in submission order.
\<close>

theorem combined_dataset_order:
  assumes "well_formed_run e df p"
    and "marker_assignments_succeed e"
    and "persistence_succeeds_before e (nat (total_batches df p))"
  shows "\<exists>st. parallel_scrape_movies e df p = Inr st
      \<and> all_movies_data st
          = concat (map (\<lambda>k. success_data
                (as_completed e k (map (process_movie_batch e) (planned_batch p df k))))
              [0..<nat (total_batches df p)])
      \<and> combined_df st
          = (if all_movies_data st = [] then None else Some (concat (all_movies_data st)))
      \<and> mset (all_movies_data st)
          = mset (success_data (map (process_movie_batch e) (item_filter p df)))
      \<and> ((\<forall>k rs. as_completed e k rs = rs)
          \<longrightarrow> all_movies_data st = success_data (map (process_movie_batch e) (item_filter p df)))"
proof -
  let ?tb = "nat (total_batches df p)"
  from assms(1) have s: "0 \<le> start_row p" and b: "1 \<le> batch_size p"
    and perm: "completion_is_permutation e" by (simp_all add: well_formed_run_def)
  from parallel_scrape_movies_returns[OF assms] obtain st0
    where a: "after_batches e p df ?tb st0"
      and r: "parallel_scrape_movies e df p
          = Inr (st0\<lparr>combined_df := if all_movies_data st0 = [] then None
                                    else Some (concat (all_movies_data st0))\<rparr>)" by blast
  from a have d: "all_movies_data st0
      = concat (map (\<lambda>k. success_data (batch_results e p df k)) [0..<?tb])"
    by (simp add: after_batches_def)
  have cat: "success_data (map (process_movie_batch e) (item_filter p df))
      = concat (map (\<lambda>k. success_data (map (process_movie_batch e) (planned_batch p df k))) [0..<?tb])"
    unfolding planned_concat_all[OF s b, symmetric] success_data_concat
    by (simp add: comp_def)
  have m: "mset (all_movies_data st0)
      = mset (success_data (map (process_movie_batch e) (item_filter p df)))"
    unfolding d cat
    by (rule mset_concat_cong) (rule success_data_mset, rule batch_results_mset[OF perm])
  have i: "all_movies_data st0 = success_data (map (process_movie_batch e) (item_filter p df))"
    if "\<forall>k rs. as_completed e k rs = rs"
    unfolding d cat using that by (simp add: batch_results_def)
  from r d m i show ?thesis by (simp add: batch_results_def)
qed

theorem combined_dataset_order_witness:
  "well_formed_run demo_env_in_order demo_catalog demo_params
   \<and> marker_assignments_succeed demo_env_in_order
   \<and> persistence_succeeds_before demo_env_in_order (nat (total_batches demo_catalog demo_params))
   \<and> (\<exists>st. parallel_scrape_movies demo_env_in_order demo_catalog demo_params = Inr st
        \<and> mset (all_movies_data st)
            = mset (success_data (map (process_movie_batch demo_env_in_order)
                  (item_filter demo_params demo_catalog)))
        \<and> all_movies_data st
            = success_data (map (process_movie_batch demo_env_in_order)
                  (item_filter demo_params demo_catalog)))"
proof -
  have o: "\<forall>k rs. as_completed demo_env_in_order k rs = rs"
    by (simp add: demo_env_in_order_def)
  from combined_dataset_order[OF demo_in_order_well_formed demo_in_order_assigns
      demo_in_order_persists] o
  have "\<exists>st. parallel_scrape_movies demo_env_in_order demo_catalog demo_params = Inr st
        \<and> mset (all_movies_data st)
            = mset (success_data (map (process_movie_batch demo_env_in_order)
                  (item_filter demo_params demo_catalog)))
        \<and> all_movies_data st
            = success_data (map (process_movie_batch demo_env_in_order)
                  (item_filter demo_params demo_catalog))" by blast
  with demo_in_order_well_formed demo_in_order_assigns demo_in_order_persists
  show ?thesis by (intro conjI)
qed

text \<open>
  Claim C2 as stated fails: rows 12 and 13 are in one batch and both succeed; when the
  future of row 13 completes first, its records come first in the combined data set.
\<close>

theorem combined_dataset_follows_completion:
  "completion_is_permutation demo_env
   \<and> combined_df (final_state (parallel_scrape_movies demo_env demo_catalog demo_params))
       = Some [[(''Date'', ''2019/01/04''), (''Gross'', ''1000''), (''Movie_Name'', ''Movie D'')],
               [(''Date'', ''2019/01/04''), (''Gross'', ''1000''), (''Movie_Name'', ''Movie C'')]]
   \<and> concat (success_data (map (process_movie_batch demo_env) (item_filter demo_params demo_catalog)))
       = [[(''Date'', ''2019/01/04''), (''Gross'', ''1000''), (''Movie_Name'', ''Movie C'')],
          [(''Date'', ''2019/01/04''), (''Gross'', ''1000''), (''Movie_Name'', ''Movie D'')]]"
proof (intro conjI)
  show "completion_is_permutation demo_env"
    by (simp add: completion_is_permutation_def demo_env_def)
  show "combined_df (final_state (parallel_scrape_movies demo_env demo_catalog demo_params))
       = Some [[(''Date'', ''2019/01/04''), (''Gross'', ''1000''), (''Movie_Name'', ''Movie D'')],
               [(''Date'', ''2019/01/04''), (''Gross'', ''1000''), (''Movie_Name'', ''Movie C'')]]"
    by code_simp
  show "concat (success_data (map (process_movie_batch demo_env) (item_filter demo_params demo_catalog)))
       = [[(''Date'', ''2019/01/04''), (''Gross'', ''1000''), (''Movie_Name'', ''Movie C'')],
          [(''Date'', ''2019/01/04''), (''Gross'', ''1000''), (''Movie_Name'', ''Movie D'')]]"
    by code_simp
qed

text \<open>
  Claim C4, amended. For a catalog with distinct row labels, a start offset that is not
  negative, a batch size and a worker count of at least one, and an output folder that
  can be created: when the writes after the batches before \<open>k\<close> succeed and one of the
  two writes after a submitted batch \<open>k\<close> raises, the run does not go on. It ends with
  an exception, nothing of a batch after \<open>k\<close> has been submitted, and no combined data
  set is produced. When no marker assignment raises, the exception is that of the failing
  write and the run ends after batch \<open>k\<close>; otherwise the run has ended at a refused
  marker assignment, in batch \<open>k\<close> or before.
\<close>

theorem persistence_failure_stops_run:
  assumes w: "well_formed_run e df p"
    and k: "k < nat (total_batches df p)"
    and ok: "persistence_succeeds_before e k"
    and ne: "planned_batch p df k \<noteq> []"
    and fail: "write_metadata e k \<noteq> None \<or> write_error_log e k \<noteq> None"
  shows "(\<exists>x st j. j \<le> k \<and> parallel_scrape_movies e df p = Inl (x, st)
          \<and> concat (submitted st)
              = map (movie_data_of p) (filter (\<lambda>r. daily_box_office_path r = None)
                  (take (Suc j * nat (batch_size p)) (drop (nat (start_row p)) df)))
          \<and> combined_df st = None)
      \<and> (marker_assignments_succeed e \<longrightarrow>
          (\<exists>msg st. parallel_scrape_movies e df p = Inl (OSError msg, st)
            \<and> Some msg = (case write_metadata e k of Some m \<Rightarrow> Some m | None \<Rightarrow> write_error_log e k)
            \<and> concat (submitted st)
                = map (movie_data_of p) (filter (\<lambda>r. daily_box_office_path r = None)
                    (take (Suc k * nat (batch_size p)) (drop (nat (start_row p)) df)))
            \<and> combined_df st = None))"
proof -
  let ?tb = "nat (total_batches df p)"
  let ?rows = "\<lambda>j. map (movie_data_of p) (filter (\<lambda>r. daily_box_office_path r = None)
      (take (Suc j * nat (batch_size p)) (drop (nat (start_row p)) df)))"
  from w have s: "0 \<le> start_row p" and b: "1 \<le> batch_size p"
    and b0: "batch_size p \<noteq> 0" "makedirs e = None"
    by (simp_all add: well_formed_run_def)
  have split: "[0..<?tb] = [0..<k] @ k # [Suc k..<?tb]"
    using k by (metis le_add2 less_imp_add_positive upt_add_eq_append upt_conv_Cons zero_le add_0)
  have sub: "concat (submitted st) = ?rows j"
    if "submitted st = filter (\<lambda>b. b \<noteq> []) (map (planned_batch p df) [0..<Suc j])" for st j
    using that by (simp only: concat_nonempty planned_concat_upto[OF s b])
  have res: "parallel_scrape_movies e df p = Inl (x, st)"
    if "run_batches e p [0..<?tb] (initial_state df) = Inl (x, st)" for x st
    unfolding parallel_scrape_movies_def using b0 that by simp
  have wfail: "\<exists>msg. batch_persisted e k st = Inl (OSError msg, st)
      \<and> Some msg = (case write_metadata e k of Some m \<Rightarrow> Some m | None \<Rightarrow> write_error_log e k)"
    for st
  proof (cases "write_metadata e k")
    case (Some m)
    then show ?thesis by (simp add: batch_persisted_def)
  next
    case None
    with fail obtain m where "write_error_log e k = Some m" by auto
    with None show ?thesis by (simp add: batch_persisted_def)
  qed
  have general: "\<exists>x st j. j \<le> k \<and> parallel_scrape_movies e df p = Inl (x, st)
      \<and> concat (submitted st) = ?rows j \<and> combined_df st = None"
    using run_batches_general[OF w ok]
  proof
    assume "\<exists>x st j. j < k \<and> run_batches e p [0..<k] (initial_state df) = Inl (x, st)
        \<and> submitted st = filter (\<lambda>b. b \<noteq> []) (map (planned_batch p df) [0..<Suc j])
        \<and> combined_df st = None"
    then obtain x st j where j: "j < k"
      and r: "run_batches e p [0..<k] (initial_state df) = Inl (x, st)"
      and su: "submitted st = filter (\<lambda>b. b \<noteq> []) (map (planned_batch p df) [0..<Suc j])"
      and c: "combined_df st = None" by blast
    have "run_batches e p [0..<?tb] (initial_state df) = Inl (x, st)"
      using r by (simp add: split run_batches_append)
    from res[OF this] sub[OF su] c j show ?thesis
      by (intro exI[of _ x] exI[of _ st] exI[of _ j]) simp
  next
    assume "\<exists>st. run_batches e p [0..<k] (initial_state df) = Inr st \<and> after_batches e p df k st"
    then obtain st0 where r: "run_batches e p [0..<k] (initial_state df) = Inr st0"
      and a: "after_batches e p df k st0" by blast
    let ?st0 = "st0\<lparr>submitted := submitted st0 @ [planned_batch p df k]\<rparr>"
    from record_results_cases[of e "batch_results e p df k" ?st0]
    have "\<exists>x st. process_batch e p k st0 = Inl (x, st)
        \<and> submitted st = filter (\<lambda>b. b \<noteq> []) (map (planned_batch p df) [0..<Suc k])
        \<and> combined_df st = None"
    proof
      assume rr: "record_results e (batch_results e p df k) ?st0
          = Inr (fold recorded (batch_results e p df k) ?st0)"
      let ?st = "batch_state e p df k st0"
      from wfail[of ?st] obtain msg where "batch_persisted e k ?st = Inl (OSError msg, ?st)"
        by blast
      then have "process_batch e p k st0 = Inl (OSError msg, ?st)"
        unfolding process_batch_planned[OF w a] using ne rr by (simp add: batch_state_def)
      moreover from after_batches_step[OF w a]
      have "submitted ?st = filter (\<lambda>b. b \<noteq> []) (map (planned_batch p df) [0..<Suc k])"
        and "combined_df ?st = None" by (simp_all only: after_batches_def)
      ultimately show ?thesis by blast
    next
      assume "\<exists>x st'. record_results e (batch_results e p df k) ?st0 = Inl (x, st')
          \<and> submitted st' = submitted ?st0 \<and> combined_df st' = combined_df ?st0"
      then obtain x st' where rr: "record_results e (batch_results e p df k) ?st0 = Inl (x, st')"
        and su: "submitted st' = submitted ?st0" and c: "combined_df st' = combined_df ?st0"
        by blast
      have "process_batch e p k st0 = Inl (x, st')"
        unfolding process_batch_planned[OF w a] using ne rr by simp
      moreover from a su ne have "submitted st'
          = filter (\<lambda>b. b \<noteq> []) (map (planned_batch p df) [0..<Suc k])"
        by (simp add: after_batches_def)
      moreover from a c have "combined_df st' = None" by (simp add: after_batches_def)
      ultimately show ?thesis by blast
    qed
    then obtain x st where pb: "process_batch e p k st0 = Inl (x, st)"
      and su: "submitted st = filter (\<lambda>b. b \<noteq> []) (map (planned_batch p df) [0..<Suc k])"
      and c: "combined_df st = None" by blast
    have "run_batches e p [0..<?tb] (initial_state df) = Inl (x, st)"
      using r pb by (simp add: split run_batches_append)
    from res[OF this] sub[OF su] c show ?thesis
      by (intro exI[of _ x] exI[of _ st] exI[of _ k]) simp
  qed
  have assigned: "\<exists>msg st. parallel_scrape_movies e df p = Inl (OSError msg, st)
      \<and> Some msg = (case write_metadata e k of Some m \<Rightarrow> Some m | None \<Rightarrow> write_error_log e k)
      \<and> concat (submitted st) = ?rows k \<and> combined_df st = None"
    if ms: "marker_assignments_succeed e"
  proof -
    from run_batches_persisting[OF w ms ok] obtain st0
      where r: "run_batches e p [0..<k] (initial_state df) = Inr st0"
        and a: "after_batches e p df k st0" by blast
    let ?st = "batch_state e p df k st0"
    from wfail[of ?st] obtain msg where msg: "batch_persisted e k ?st = Inl (OSError msg, ?st)"
      and m: "Some msg = (case write_metadata e k of Some m \<Rightarrow> Some m | None \<Rightarrow> write_error_log e k)"
      by blast
    have pb: "process_batch e p k st0 = Inl (OSError msg, ?st)"
      unfolding process_batch_assigned[OF w ms a] using ne msg by simp
    have "run_batches e p [0..<?tb] (initial_state df) = Inl (OSError msg, ?st)"
      using r pb by (simp add: split run_batches_append)
    note run = res[OF this]
    from after_batches_step[OF w a]
    have su: "submitted ?st = filter (\<lambda>b. b \<noteq> []) (map (planned_batch p df) [0..<Suc k])"
      and c: "combined_df ?st = None" by (simp_all only: after_batches_def)
    from run m sub[OF su] c show ?thesis by blast
  qed
  from general assigned show ?thesis by blast
qed

theorem persistence_failure_stops_run_witness:
  "well_formed_run demo_env_disk_full demo_catalog demo_params
   \<and> 0 < nat (total_batches demo_catalog demo_params)
   \<and> persistence_succeeds_before demo_env_disk_full 0
   \<and> planned_batch demo_params demo_catalog 0 \<noteq> []
   \<and> write_metadata demo_env_disk_full 0 \<noteq> None
   \<and> marker_assignments_succeed demo_env_disk_full
   \<and> (\<exists>msg st. parallel_scrape_movies demo_env_disk_full demo_catalog demo_params
          = Inl (OSError msg, st)
        \<and> concat (submitted st)
            = map (movie_data_of demo_params) (filter (\<lambda>r. daily_box_office_path r = None)
                (take (Suc 0 * nat (batch_size demo_params))
                   (drop (nat (start_row demo_params)) demo_catalog)))
        \<and> combined_df st = None)"
proof -
  have k: "0 < nat (total_batches demo_catalog demo_params)" by code_simp
  have ok: "persistence_succeeds_before demo_env_disk_full 0"
    by (simp add: persistence_succeeds_before_def)
  have ne: "planned_batch demo_params demo_catalog 0 \<noteq> []" by code_simp
  have f: "write_metadata demo_env_disk_full 0 \<noteq> None"
    by (simp add: demo_env_disk_full_def)
  from persistence_failure_stops_run[OF demo_disk_full_well_formed k ok ne disjI1[OF f]]
    demo_disk_full_assigns
  have "\<exists>msg st. parallel_scrape_movies demo_env_disk_full demo_catalog demo_params
          = Inl (OSError msg, st)
        \<and> concat (submitted st)
            = map (movie_data_of demo_params) (filter (\<lambda>r. daily_box_office_path r = None)
                (take (Suc 0 * nat (batch_size demo_params))
                   (drop (nat (start_row demo_params)) demo_catalog)))
        \<and> combined_df st = None" by blast
  with demo_disk_full_well_formed k ok ne f demo_disk_full_assigns show ?thesis by (intro conjI)
qed

text \<open>
  Claim C4 as stated fails: when writing the catalog after batch 0 raises, the run ends
  with that error, and rows 12 and 13 of the next batch are never submitted.
\<close>

theorem persistence_failure_skips_later_batches:
  "raised (parallel_scrape_movies demo_env_disk_full demo_catalog demo_params)
     = Some (OSError ''No space left on device'')
   \<and> map (map md_idx)
        (submitted (final_state (parallel_scrape_movies demo_env_disk_full demo_catalog demo_params)))
     = [[11]]
   \<and> map md_idx (item_filter demo_params demo_catalog) = [11, 12, 13]"
  by code_simp

text \<open>
  Claim C7, amended. For a catalog with distinct row labels, a start offset that is not
  negative, a batch size and a worker count of at least one, and two runs in which the
  output folder can be created and no marker assignment and no per-batch write raises:
  the second run, on the catalog as the first run left it, submits exactly the filtered
  rows whose fetch failed in the first run; the rows that succeeded are skipped. It
  submits nothing when every fetch of the first run succeeded.
\<close>

theorem second_run_fetches_failures:
  assumes w: "well_formed_run e df p"
    and ms: "marker_assignments_succeed e"
    and ok: "persistence_succeeds_before e (nat (total_batches df p))"
    and mk': "makedirs e' = None"
    and perm': "completion_is_permutation e'"
    and ms': "marker_assignments_succeed e'"
    and ok': "persistence_succeeds_before e' (nat (total_batches df p))"
  shows "\<exists>st st'. parallel_scrape_movies e df p = Inr st
      \<and> parallel_scrape_movies e' (metadata_df st) p = Inr st'
      \<and> concat (submitted st')
          = filter (\<lambda>md. \<not> is_success (process_movie_batch e md)) (item_filter p df)
      \<and> (list_all (\<lambda>md. is_success (process_movie_batch e md)) (item_filter p df)
          \<longrightarrow> submitted st' = [])"
proof -
  let ?tb = "nat (total_batches df p)" and ?S = "nat (start_row p)"
  from w have s: "0 \<le> start_row p" and b: "1 \<le> batch_size p" and d: "distinct (map idx df)"
    and mw: "1 \<le> max_workers p" by (simp_all add: well_formed_run_def)
  from parallel_scrape_movies_returns[OF w ms ok] obtain st0
    where a: "after_batches e p df ?tb st0"
      and r: "parallel_scrape_movies e df p
          = Inr (st0\<lparr>combined_df := if all_movies_data st0 = [] then None
                                    else Some (concat (all_movies_data st0))\<rparr>)" by blast
  let ?st = "st0\<lparr>combined_df := if all_movies_data st0 = [] then None
                                    else Some (concat (all_movies_data st0))\<rparr>"
  let ?df = "metadata_df st0"
  from a have t: "list_all2 (tracks (done_before e p df ?tb)) df ?df"
    by (simp add: after_batches_def)
  have tb: "total_batches ?df p = total_batches df p"
    using tracks_same_rows(2)[OF t] by (simp add: total_batches_def)
  have w': "well_formed_run e' ?df p"
    using s b d mw mk' perm' tracks_same_rows(1)[OF t] by (simp add: well_formed_run_def)
  from ok' have ok2: "persistence_succeeds_before e' (nat (total_batches ?df p))"
    by (simp only: tb)
  from parallel_scrape_movies_returns[OF w' ms' ok2] obtain st0'
    where a': "after_batches e' p ?df ?tb st0'"
      and r': "parallel_scrape_movies e' ?df p
          = Inr (st0'\<lparr>combined_df := if all_movies_data st0' = [] then None
                                    else Some (concat (all_movies_data st0'))\<rparr>)"
    unfolding tb by blast
  let ?st' = "st0'\<lparr>combined_df := if all_movies_data st0' = [] then None
                                    else Some (concat (all_movies_data st0'))\<rparr>"
  from a' have sub: "submitted st0' = filter (\<lambda>b. b \<noteq> []) (map (planned_batch p ?df) [0..<?tb])"
    by (simp add: after_batches_def)
  have c: "concat (submitted st0') = item_filter p ?df"
    unfolding sub concat_nonempty using planned_concat_all[OF s b, of ?df] by (simp only: tb)
  have "list_all2 (tracks (done_before e p df ?tb)) (drop ?S df) (drop ?S ?df)"
    using t by (rule list_all2_dropI)
  then have f: "item_filter p ?df
      = filter (\<lambda>md. \<not> is_success (process_movie_batch e md)) (item_filter p df)"
    unfolding item_filter_def
    by (rule item_filter_tracks) (rule done_before_all[OF s b d])
  have z: "submitted st0' = []"
    if "list_all (\<lambda>md. is_success (process_movie_batch e md)) (item_filter p df)"
  proof -
    from that have "filter (\<lambda>md. \<not> is_success (process_movie_batch e md)) (item_filter p df) = []"
      by (simp add: list_all_iff filter_empty_conv)
    with c f have "concat (submitted st0') = []" by simp
    then have "\<forall>b\<in>set (submitted st0'). b = []" by simp
    moreover have "\<forall>b\<in>set (submitted st0'). b \<noteq> []" unfolding sub by simp
    ultimately show ?thesis by (cases "submitted st0'") auto
  qed
  have "parallel_scrape_movies e df p = Inr ?st
      \<and> parallel_scrape_movies e' (metadata_df ?st) p = Inr ?st'
      \<and> concat (submitted ?st')
          = filter (\<lambda>md. \<not> is_success (process_movie_batch e md)) (item_filter p df)
      \<and> (list_all (\<lambda>md. is_success (process_movie_batch e md)) (item_filter p df)
          \<longrightarrow> submitted ?st' = [])"
    using r r' c f z by simp
  then show ?thesis by blast
qed

theorem second_run_fetches_failures_witness:
  "well_formed_run demo_env_in_order
      [\<lparr>idx = 12, movie_name = ''Movie C'', release_year = 2017, daily_box_office_path = None\<rparr>]
      demo_params
   \<and> marker_assignments_succeed demo_env_in_order
   \<and> persistence_succeeds_before demo_env_in_order (nat (total_batches
        [\<lparr>idx = 12, movie_name = ''Movie C'', release_year = 2017, daily_box_office_path = None\<rparr>]
        demo_params))
   \<and> list_all (\<lambda>md. is_success (process_movie_batch demo_env_in_order md))
        (item_filter demo_params
          [\<lparr>idx = 12, movie_name = ''Movie C'', release_year = 2017,
             daily_box_office_path = None\<rparr>])
   \<and> (\<exists>st st'. parallel_scrape_movies demo_env_in_order
          [\<lparr>idx = 12, movie_name = ''Movie C'', release_year = 2017, daily_box_office_path = None\<rparr>]
          demo_params = Inr st
        \<and> parallel_scrape_movies demo_env_in_order (metadata_df st) demo_params = Inr st'
        \<and> submitted st' = [])"
proof -
  let ?df = "[\<lparr>idx = 12, movie_name = ''Movie C'', release_year = 2017,
                 daily_box_office_path = None\<rparr>]"
  have w: "well_formed_run demo_env_in_order ?df demo_params"
    by (simp add: well_formed_run_def completion_is_permutation_def demo_env_in_order_def
      demo_env_def demo_params_def)
  have mk: "makedirs demo_env_in_order = None"
    using w by (simp add: well_formed_run_def)
  have perm: "completion_is_permutation demo_env_in_order"
    using w by (simp add: well_formed_run_def)
  have all: "list_all (\<lambda>md. is_success (process_movie_batch demo_env_in_order md))
      (item_filter demo_params ?df)" by code_simp
  from second_run_fetches_failures[OF w demo_in_order_assigns demo_in_order_persists mk perm
      demo_in_order_assigns demo_in_order_persists] all
  have "\<exists>st st'. parallel_scrape_movies demo_env_in_order ?df demo_params = Inr st
        \<and> parallel_scrape_movies demo_env_in_order (metadata_df st) demo_params = Inr st'
        \<and> submitted st' = []" by blast
  with w demo_in_order_assigns demo_in_order_persists all show ?thesis by (intro conjI)
qed

text \<open>
  Claim C7 as stated fails: row 11 fails in the first run, keeps no marker, and is
  submitted again by the second run.
\<close>

theorem second_run_fetches_again:
  "map (map md_idx) (submitted (final_state (parallel_scrape_movies demo_env
        (metadata_df (final_state (parallel_scrape_movies demo_env demo_catalog demo_params)))
        demo_params)))
     = [[11]]"
  by code_simp

end
